theory Spec2Isabelle
  imports Main "HOL-Library.Word" "HOL-Library.AList"
begin

unbundle bit_operations_syntax

section \<open>Instructions\<close>

text \<open>
  The instruction set, read off the dispatch of \<^verbatim>\<open>VM.Feed\<close> (pkg/vm/execution.go): one
  constructor for each \<^verbatim>\<open>case\<close> of its switch, in the order of the switch.
\<close>

datatype Op =
    Inew | Iinc | Ishl | Iadd | Ineg | Isht | Itof | Itou
  | Finf | Fnan | Fneg
  | Snew | Sadd
  | Onew | Oadd
  | Anew | Aadd
  | Bnew | Bneg
  | Nnew
  | Gdup | Gpop | Gswp

definition all_ops :: "Op list" where
  "all_ops = [Inew, Iinc, Ishl, Iadd, Ineg, Isht, Itof, Itou, Finf, Fnan, Fneg,
              Snew, Sadd, Onew, Oadd, Anew, Aadd, Bnew, Bneg, Nnew, Gdup, Gpop, Gswp]"

section \<open>Lexer\<close>

text \<open>
  Package lexer. A byte of the input is a \<^typ>\<open>char\<close>. The two tables are Go map literals;
  they are kept as the association lists of their source text and read through
  \<^const>\<open>map_of\<close> (the keys of a Go map literal are pairwise distinct).
\<close>

datatype Mode = A | S

definition opTableA_entries :: "(char \<times> Op) list" where
  "opTableA_entries =
    [(CHR ''B'', Inew), (CHR ''u'', Iinc), (CHR ''b'', Ishl), (CHR ''a'', Iadd),
     (CHR ''A'', Ineg), (CHR ''e'', Isht), (CHR ''i'', Itof), (CHR ''q'', Finf),
     (CHR ''t'', Fnan), (CHR ''p'', Fneg), (CHR ''?'', Snew), (CHR ''!'', Sadd),
     (CHR ''~'', Onew), (CHR ''M'', Oadd), (CHR ''@'', Anew), (CHR ''s'', Aadd),
     (CHR ''z'', Bnew), (CHR ''o'', Bneg), (CHR ''.'', Nnew), (CHR ''*'', Gdup),
     (CHR ''#'', Gpop), (CHR ''%'', Gswp)]"

definition opTableS_entries :: "(char \<times> Op) list" where
  "opTableS_entries =
    [(CHR ''S'', Inew), (CHR ''h'', Iinc), (CHR ''a'', Ishl), (CHR ''k'', Iadd),
     (CHR ''r'', Ineg), (CHR ''A'', Isht), (CHR ''z'', Itof), (CHR ''p'', Finf),
     (CHR ''b'', Fnan), (CHR ''u'', Fneg), (CHR ''$'', Snew), (CHR ''-'', Sadd),
     (CHR ''+'', Onew), (CHR ''g'', Oadd), (CHR ''v'', Anew), (CHR ''?'', Aadd),
     (CHR ''^'', Bnew), (CHR ''!'', Bneg), (CHR ''y'', Nnew), (CHR ''/'', Gdup),
     (CHR ''c'', Gpop), (CHR '':'', Gswp)]"

definition opTableA :: "char \<rightharpoonup> Op" where
  "opTableA = map_of opTableA_entries"

definition opTableS :: "char \<rightharpoonup> Op" where
  "opTableS = map_of opTableS_entries"

text \<open>
  \<^verbatim>\<open>init\<close> fills the reversed tables by ranging over the forward ones and assigning
  \<^verbatim>\<open>reversed[v] = k\<close>; a later assignment to the same opcode would overwrite an earlier one.
\<close>

definition reverse_table :: "(char \<times> Op) list \<Rightarrow> (Op \<rightharpoonup> char)" where
  "reverse_table es = fold (\<lambda>(k, v) m. m(v \<mapsto> k)) es Map.empty"

definition reversedTableA :: "Op \<rightharpoonup> char" where
  "reversedTableA = reverse_table opTableA_entries"

definition reversedTableS :: "Op \<rightharpoonup> char" where
  "reversedTableS = reverse_table opTableS_entries"

text \<open>
  \<^verbatim>\<open>readOp(m, b)\<close> returns \<^verbatim>\<open>opTableA[b]\<close> with its presence flag; the mode argument is not
  consulted. \<^verbatim>\<open>showOp(m, op)\<close> looks \<^verbatim>\<open>op\<close> up in \<^verbatim>\<open>reversedTableA\<close> and panics when it is
  absent (\<^const>\<open>None\<close> here).
\<close>

definition readOp :: "Mode \<Rightarrow> char \<Rightarrow> Op option" where
  "readOp m b = opTableA b"

definition showOp :: "Mode \<Rightarrow> Op \<Rightarrow> char option" where
  "showOp m op = (case reversedTableA op of Some b \<Rightarrow> Some b | None \<Rightarrow> None)"

text \<open>
  \<^verbatim>\<open>Lexer.Next\<close>. The reader is the list of bytes still to be read; reading past its end
  gives \<^verbatim>\<open>io.EOF\<close>, which \<^verbatim>\<open>Next\<close> returns as it is. The loop reads one byte, returns its
  opcode when \<^verbatim>\<open>readOp(A, b)\<close> finds one, and goes on to the next byte otherwise. The result
  is paired with the reader after the call.
\<close>

datatype io_error = EOF

fun Next :: "char list \<Rightarrow> (io_error + Op) \<times> char list" where
  "Next [] = (Inl EOF, [])"
| "Next (b # r) = (case readOp A b of Some op \<Rightarrow> (Inr op, r) | None \<Rightarrow> Next r)"


section \<open>Values and the heap\<close>

text \<open>
  The virtual machine (pkg/vm/execution.go) works on pointers \<^verbatim>\<open>*types.Value\<close>, and an Object
  value holds a Go map, which is a reference. Both are kept in an explicit store: a pointer
  is an index into the list of allocated \<^verbatim>\<open>Value\<close> structs, a map is an index into the list of
  allocated maps. Allocation appends, so an address is never reused.

  Both \<^verbatim>\<open>int64\<close> and \<^verbatim>\<open>uint64\<close> are \<^typ>\<open>64 word\<close>: an \<^verbatim>\<open>int64\<close> is read with \<^const>\<open>sint\<close>, a
  \<^verbatim>\<open>uint64\<close> with \<^const>\<open>unat\<close>, and the conversion \<^verbatim>\<open>uint64(n)\<close> keeps the 64 bits. A \<^verbatim>\<open>float64\<close>
  is kept as its IEEE-754 binary64 bit pattern, which is what \<^verbatim>\<open>math.Float64bits\<close> reads and
  \<^verbatim>\<open>math.Float64frombits\<close> writes. A byte string is a list of bytes, a byte being a
  \<^typ>\<open>char\<close> (sharing between slices of one backing array is not modelled).
\<close>

type_synonym addr = nat
type_synonym mapref = nat
type_synonym bytes = "char list"
type_synonym int64 = "64 word"
type_synonym uint64 = "64 word"

text \<open>
  Modelled from the spec: the declaration of \<^verbatim>\<open>types.Value\<close> and its constructors
  \<^verbatim>\<open>NewIntValue\<close>, ..., \<^verbatim>\<open>NewNilValue\<close> are not among the sources. A value is the tagged union
  of the spec's data model, with the one payload of its kind; an Array is the list of its
  element pointers, an Object a reference to its map, and the entries of a map are an
  association list with distinct keys. A constructor allocates a new struct (\<open>new_value\<close>
  below).
\<close>

datatype cell =
    CInt int64
  | CUint uint64
  | CFloat "64 word"
  | CString bytes
  | CObject mapref
  | CArray "addr list"
  | CBool bool
  | CNil

text \<open>
  What a call can end in besides success: one of the three error values of the package, a
  Go run-time panic (index out of range, nil dereference, negative shift count), or, for the
  recursion of a deep copy that is given too little fuel, no return.
\<close>

datatype failure =
    ErrStackEmpty
  | ErrMaximumStackSizeExceeded
  | ErrTypeMismatch
  | RuntimePanic
  | Diverged

text \<open>
  The state: the store (\<open>cells\<close>, \<open>objs\<close>) and the two fields of the \<^verbatim>\<open>VM\<close> struct that
  the code reads and writes, \<^verbatim>\<open>vm.stack\<close> (a slice of pointers, \<^const>\<open>None\<close> for \<^verbatim>\<open>nil\<close>,
  whose length is the capacity) and \<^verbatim>\<open>vm.sp\<close>.
\<close>

record state =
  cells :: "cell list"
  objs :: "(bytes \<times> addr) list list"
  stack :: "addr option list"
  sp :: int

definition deref :: "state \<Rightarrow> addr option \<Rightarrow> cell option" where
  "deref s p = (case p of None \<Rightarrow> None
                | Some a \<Rightarrow> if a < length (cells s) then Some (cells s ! a) else None)"

definition new_value :: "cell \<Rightarrow> state \<Rightarrow> addr \<times> state" where
  "new_value c s = (length (cells s), s\<lparr>cells := cells s @ [c]\<rparr>)"

definition new_map :: "(bytes \<times> addr) list \<Rightarrow> state \<Rightarrow> mapref \<times> state" where
  "new_map kvs s = (length (objs s), s\<lparr>objs := objs s @ [kvs]\<rparr>)"

text \<open>
  \<^verbatim>\<open>o[k] = c\<close> on the map \<^verbatim>\<open>o\<close>: the map is changed in place. (A map reference that is not
  allocated stands for the nil map, on which the assignment panics; \<^verbatim>\<open>feedOadd\<close> has the
  branch.)
\<close>

definition map_assign :: "mapref \<Rightarrow> bytes \<Rightarrow> addr \<Rightarrow> state \<Rightarrow> state" where
  "map_assign m k c s = s\<lparr>objs := (objs s)[m := AList.update k c (objs s ! m)]\<rparr>"

section \<open>Deep copy\<close>

text \<open>
  Modelled from the spec: \<^verbatim>\<open>Value.DeepCopy\<close> is not among the sources. By the spec it
  clones containers recursively and copies the other kinds by value; the result is a newly
  allocated \<^verbatim>\<open>Value\<close>. The recursion follows pointers of the store, so it is bounded by
  fuel: each level of nesting takes one unit, and running out is \<^const>\<open>Diverged\<close>. The
  entries of a map are copied in the order of its association list.
\<close>

function DeepCopy :: "nat \<Rightarrow> addr \<Rightarrow> state \<Rightarrow> (failure + addr) \<times> state"
  and copy_elems :: "nat \<Rightarrow> addr list \<Rightarrow> state \<Rightarrow> (failure + addr list) \<times> state"
  and copy_entries ::
    "nat \<Rightarrow> (bytes \<times> addr) list \<Rightarrow> state \<Rightarrow> (failure + (bytes \<times> addr) list) \<times> state"
where
  "DeepCopy 0 a s = (Inl Diverged, s)"
| "DeepCopy (Suc n) a s =
    (if a < length (cells s) then
       (case cells s ! a of
          CArray xs \<Rightarrow>
            (case copy_elems n xs s of
               (Inl e, s1) \<Rightarrow> (Inl e, s1)
             | (Inr ys, s1) \<Rightarrow> (case new_value (CArray ys) s1 of (c, s2) \<Rightarrow> (Inr c, s2)))
        | CObject m \<Rightarrow>
            (if m < length (objs s) then
               (case copy_entries n (objs s ! m) s of
                  (Inl e, s1) \<Rightarrow> (Inl e, s1)
                | (Inr kvs, s1) \<Rightarrow>
                    (case new_map kvs s1 of (m', s2) \<Rightarrow>
                       (case new_value (CObject m') s2 of (c, s3) \<Rightarrow> (Inr c, s3))))
             else (Inl RuntimePanic, s))
        | v \<Rightarrow> (case new_value v s of (c, s1) \<Rightarrow> (Inr c, s1)))
     else (Inl RuntimePanic, s))"
| "copy_elems n [] s = (Inr [], s)"
| "copy_elems n (x # xs) s =
    (case DeepCopy n x s of
       (Inl e, s1) \<Rightarrow> (Inl e, s1)
     | (Inr y, s1) \<Rightarrow>
         (case copy_elems n xs s1 of
            (Inl e, s2) \<Rightarrow> (Inl e, s2)
          | (Inr ys, s2) \<Rightarrow> (Inr (y # ys), s2)))"
| "copy_entries n [] s = (Inr [], s)"
| "copy_entries n ((k, x) # kxs) s =
    (case DeepCopy n x s of
       (Inl e, s1) \<Rightarrow> (Inl e, s1)
     | (Inr y, s1) \<Rightarrow>
         (case copy_entries n kxs s1 of
            (Inl e, s2) \<Rightarrow> (Inl e, s2)
          | (Inr kys, s2) \<Rightarrow> (Inr ((k, y) # kys), s2)))"
  by pat_completeness auto
termination
  by (relation "inv_image (less_than <*lex*> less_than)
        (\<lambda>x. case x of
           Inl (n, a, s) \<Rightarrow> (n, 0)
         | Inr (Inl (n, xs, s)) \<Rightarrow> (n, Suc (length xs))
         | Inr (Inr (n, kxs, s)) \<Rightarrow> (n, Suc (length kxs)))") auto

text \<open>\<^verbatim>\<open>v.DeepCopy()\<close> on a popped pointer: a nil receiver panics at \<^verbatim>\<open>v.Kind\<close>.\<close>

definition DeepCopyPtr :: "nat \<Rightarrow> addr option \<Rightarrow> state \<Rightarrow> (failure + addr) \<times> state" where
  "DeepCopyPtr fuel p s = (case p of None \<Rightarrow> (Inl RuntimePanic, s) | Some a \<Rightarrow> DeepCopy fuel a s)"

section \<open>The virtual machine\<close>

text \<open>
  \<^verbatim>\<open>Top\<close>, \<^verbatim>\<open>push\<close> and \<^verbatim>\<open>pop\<close>. Indexing \<^verbatim>\<open>vm.stack\<close> outside its length panics in Go; the
  branches are written out. \<^verbatim>\<open>push\<close> increments \<^verbatim>\<open>vm.sp\<close> before it stores, \<^verbatim>\<open>pop\<close> clears the
  slot and then decrements.
\<close>

definition Top :: "state \<Rightarrow> failure + addr option" where
  "Top s =
    (if sp s < 0 then Inl ErrStackEmpty
     else if int (length (stack s)) \<le> sp s then Inl RuntimePanic
     else Inr (stack s ! nat (sp s)))"

definition push :: "addr option \<Rightarrow> state \<Rightarrow> failure option \<times> state" where
  "push v s =
    (if int (length (stack s)) - 1 \<le> sp s then (Some ErrMaximumStackSizeExceeded, s)
     else if sp s + 1 < 0 then (Some RuntimePanic, s\<lparr>sp := sp s + 1\<rparr>)
     else (None, s\<lparr>stack := (stack s)[nat (sp s + 1) := v], sp := sp s + 1\<rparr>))"

definition pop :: "state \<Rightarrow> (failure + addr option) \<times> state" where
  "pop s =
    (if sp s < 0 then (Inl ErrStackEmpty, s)
     else if int (length (stack s)) \<le> sp s then (Inl RuntimePanic, s)
     else (Inr (stack s ! nat (sp s)),
           s\<lparr>stack := (stack s)[nat (sp s) := None], sp := sp s - 1\<rparr>))"

text \<open>Sequencing with the early return \<^verbatim>\<open>if err != nil { return err }\<close>.\<close>

definition and_then ::
  "(state \<Rightarrow> (failure + 'a) \<times> state) \<Rightarrow> ('a \<Rightarrow> state \<Rightarrow> failure option \<times> state)
    \<Rightarrow> state \<Rightarrow> failure option \<times> state" where
  "and_then m f s = (case m s of (Inl e, s1) \<Rightarrow> (Some e, s1) | (Inr x, s1) \<Rightarrow> f x s1)"

text \<open>The typed pushes allocate the new \<^verbatim>\<open>Value\<close> and push the pointer to it.\<close>

definition push_new :: "cell \<Rightarrow> state \<Rightarrow> failure option \<times> state" where
  "push_new c s = (case new_value c s of (a, s1) \<Rightarrow> push (Some a) s1)"

definition pushInt :: "int64 \<Rightarrow> state \<Rightarrow> failure option \<times> state" where
  "pushInt val = push_new (CInt val)"

definition pushUint :: "uint64 \<Rightarrow> state \<Rightarrow> failure option \<times> state" where
  "pushUint val = push_new (CUint val)"

definition pushFloat :: "64 word \<Rightarrow> state \<Rightarrow> failure option \<times> state" where
  "pushFloat val = push_new (CFloat val)"

definition pushString :: "bytes \<Rightarrow> state \<Rightarrow> failure option \<times> state" where
  "pushString val = push_new (CString val)"

definition pushObject :: "mapref \<Rightarrow> state \<Rightarrow> failure option \<times> state" where
  "pushObject val = push_new (CObject val)"

definition pushArray :: "addr list \<Rightarrow> state \<Rightarrow> failure option \<times> state" where
  "pushArray val = push_new (CArray val)"

definition pushBool :: "bool \<Rightarrow> state \<Rightarrow> failure option \<times> state" where
  "pushBool val = push_new (CBool val)"

definition pushNil :: "state \<Rightarrow> failure option \<times> state" where
  "pushNil = push_new CNil"

text \<open>
  The typed pops: pop, then compare \<^verbatim>\<open>v.Kind\<close>. Reading \<^verbatim>\<open>v.Kind\<close> through a nil pointer
  panics. The mismatch is found after \<^const>\<open>pop\<close> has changed the state.
\<close>

definition pop_kind :: "(cell \<Rightarrow> 'a option) \<Rightarrow> state \<Rightarrow> (failure + 'a) \<times> state" where
  "pop_kind payload s =
    (case pop s of
       (Inl e, s1) \<Rightarrow> (Inl e, s1)
     | (Inr v, s1) \<Rightarrow>
         (case deref s1 v of
            None \<Rightarrow> (Inl RuntimePanic, s1)
          | Some c \<Rightarrow>
              (case payload c of
                 None \<Rightarrow> (Inl ErrTypeMismatch, s1)
               | Some x \<Rightarrow> (Inr x, s1))))"

definition popInt :: "state \<Rightarrow> (failure + int64) \<times> state" where
  "popInt = pop_kind (\<lambda>c. case c of CInt i \<Rightarrow> Some i | _ \<Rightarrow> None)"

definition popFloat :: "state \<Rightarrow> (failure + 64 word) \<times> state" where
  "popFloat = pop_kind (\<lambda>c. case c of CFloat x \<Rightarrow> Some x | _ \<Rightarrow> None)"

definition popString :: "state \<Rightarrow> (failure + bytes) \<times> state" where
  "popString = pop_kind (\<lambda>c. case c of CString b \<Rightarrow> Some b | _ \<Rightarrow> None)"

definition popObject :: "state \<Rightarrow> (failure + mapref) \<times> state" where
  "popObject = pop_kind (\<lambda>c. case c of CObject m \<Rightarrow> Some m | _ \<Rightarrow> None)"

definition popArray :: "state \<Rightarrow> (failure + addr list) \<times> state" where
  "popArray = pop_kind (\<lambda>c. case c of CArray xs \<Rightarrow> Some xs | _ \<Rightarrow> None)"

definition popBool :: "state \<Rightarrow> (failure + bool) \<times> state" where
  "popBool = pop_kind (\<lambda>c. case c of CBool b \<Rightarrow> Some b | _ \<Rightarrow> None)"

text \<open>
  Go's shifts with a signed count \<^verbatim>\<open>n\<close> of type \<^verbatim>\<open>int64\<close>: a negative count panics at run
  time; otherwise the left operand is shifted \<^verbatim>\<open>n\<close> times by one, so a count of 64 or more
  gives 0 for \<^verbatim>\<open><<\<close> and the sign fill for \<^verbatim>\<open>>>\<close> on a signed operand. The unary minus of
  \<^verbatim>\<open>a >> -b\<close> is the wrapping negation of \<^verbatim>\<open>int64\<close>.
\<close>

definition shl64 :: "int64 \<Rightarrow> int64 \<Rightarrow> failure + int64" where
  "shl64 a n = (if n <s 0 then Inl RuntimePanic else Inr (push_bit (nat (sint n)) a))"

definition shr64 :: "int64 \<Rightarrow> int64 \<Rightarrow> failure + int64" where
  "shr64 a n = (if n <s 0 then Inl RuntimePanic else Inr (signed_drop_bit (nat (sint n)) a))"

definition pure :: "failure + 'a \<Rightarrow> state \<Rightarrow> (failure + 'a) \<times> state" where
  "pure r s = (r, s)"

text \<open>
  Float constants and negation on bit patterns: \<^verbatim>\<open>math.Inf(1)\<close> is \<^verbatim>\<open>0x7FF0000000000000\<close>,
  \<^verbatim>\<open>math.NaN()\<close> is \<^verbatim>\<open>0x7FF8000000000001\<close>, and \<^verbatim>\<open>-x\<close> flips the sign bit.
\<close>

definition float_inf :: "64 word" where
  "float_inf = 0x7FF0000000000000"

definition float_nan :: "64 word" where
  "float_nan = 0x7FF8000000000001"

definition float_neg :: "64 word \<Rightarrow> 64 word" where
  "float_neg x = x XOR 0x8000000000000000"

text \<open>\<^verbatim>\<open>math.Float64frombits\<close> and \<^verbatim>\<open>math.Float64bits\<close> reinterpret the 64 bits.\<close>

definition Float64frombits :: "uint64 \<Rightarrow> 64 word" where
  "Float64frombits b = b"

definition Float64bits :: "64 word \<Rightarrow> uint64" where
  "Float64bits f = f"

text \<open>The conversions \<^verbatim>\<open>uint64(n)\<close> of an \<^verbatim>\<open>int64\<close> and \<^verbatim>\<open>byte(n)\<close> of an \<^verbatim>\<open>int64\<close>.\<close>

definition to_uint64 :: "int64 \<Rightarrow> uint64" where
  "to_uint64 n = word_of_int (sint n)"

definition to_byte :: "int64 \<Rightarrow> char" where
  "to_byte n = char_of (sint n)"

subsection \<open>The operations, one for each \<^verbatim>\<open>feedX\<close>\<close>

definition feedInew :: "state \<Rightarrow> failure option \<times> state" where
  "feedInew = pushInt 0"

definition feedIinc :: "state \<Rightarrow> failure option \<times> state" where
  "feedIinc = and_then popInt (\<lambda>v. pushInt (v + 1))"

definition feedIshl :: "state \<Rightarrow> failure option \<times> state" where
  "feedIshl = and_then popInt (\<lambda>v. pushInt (push_bit 1 v))"

definition feedIadd :: "state \<Rightarrow> failure option \<times> state" where
  "feedIadd = and_then popInt (\<lambda>b. and_then popInt (\<lambda>a. pushInt (a + b)))"

definition feedIneg :: "state \<Rightarrow> failure option \<times> state" where
  "feedIneg = and_then popInt (\<lambda>v. pushInt (- v))"

definition feedIsht :: "state \<Rightarrow> failure option \<times> state" where
  "feedIsht =
    and_then popInt (\<lambda>b. and_then popInt (\<lambda>a.
      if 0 \<le>s b then and_then (pure (shl64 a b)) pushInt
      else and_then (pure (shr64 a (- b))) pushInt))"

definition feedItof :: "state \<Rightarrow> failure option \<times> state" where
  "feedItof = and_then popInt (\<lambda>n. pushFloat (Float64frombits (to_uint64 n)))"

definition feedItou :: "state \<Rightarrow> failure option \<times> state" where
  "feedItou = and_then popInt (\<lambda>n. pushUint (to_uint64 n))"

definition feedFinf :: "state \<Rightarrow> failure option \<times> state" where
  "feedFinf = pushFloat float_inf"

definition feedFnan :: "state \<Rightarrow> failure option \<times> state" where
  "feedFnan = pushFloat float_nan"

definition feedFneg :: "state \<Rightarrow> failure option \<times> state" where
  "feedFneg = and_then popFloat (\<lambda>x. pushFloat (float_neg x))"

definition feedSnew :: "state \<Rightarrow> failure option \<times> state" where
  "feedSnew = pushString []"

definition feedSadd :: "state \<Rightarrow> failure option \<times> state" where
  "feedSadd = and_then popInt (\<lambda>n. and_then popString (\<lambda>s. pushString (s @ [to_byte n])))"

definition feedOnew :: "state \<Rightarrow> failure option \<times> state" where
  "feedOnew s = (case new_map [] s of (m, s1) \<Rightarrow> pushObject m s1)"

definition feedOadd :: "nat \<Rightarrow> state \<Rightarrow> failure option \<times> state" where
  "feedOadd fuel =
    and_then pop (\<lambda>v. and_then popString (\<lambda>k. and_then popObject (\<lambda>o'.
      and_then (DeepCopyPtr fuel v) (\<lambda>c s.
        if o' < length (objs s) then pushObject o' (map_assign o' k c s)
        else (Some RuntimePanic, s)))))"

definition feedAnew :: "state \<Rightarrow> failure option \<times> state" where
  "feedAnew = pushArray []"

definition feedAadd :: "nat \<Rightarrow> state \<Rightarrow> failure option \<times> state" where
  "feedAadd fuel =
    and_then pop (\<lambda>x. and_then popArray (\<lambda>a.
      and_then (DeepCopyPtr fuel x) (\<lambda>c. pushArray (a @ [c]))))"

definition feedBnew :: "state \<Rightarrow> failure option \<times> state" where
  "feedBnew = pushBool False"

definition feedBneg :: "state \<Rightarrow> failure option \<times> state" where
  "feedBneg = and_then popBool (\<lambda>v. pushBool (\<not> v))"

definition feedNnew :: "state \<Rightarrow> failure option \<times> state" where
  "feedNnew = pushNil"

definition feedGdup :: "nat \<Rightarrow> state \<Rightarrow> failure option \<times> state" where
  "feedGdup fuel =
    and_then pop (\<lambda>v s.
      case push v s of
        (Some e, s1) \<Rightarrow> (Some e, s1)
      | (None, s1) \<Rightarrow> and_then (DeepCopyPtr fuel v) (\<lambda>c. push (Some c)) s1)"

definition feedGpop :: "state \<Rightarrow> failure option \<times> state" where
  "feedGpop = and_then pop (\<lambda>_ s. (None, s))"

definition feedGswp :: "state \<Rightarrow> failure option \<times> state" where
  "feedGswp =
    and_then pop (\<lambda>a. and_then pop (\<lambda>b s.
      case push a s of
        (Some e, s1) \<Rightarrow> (Some e, s1)
      | (None, s1) \<Rightarrow> push b s1))"

text \<open>
  \<^verbatim>\<open>Feed\<close> dispatches on the opcode (every opcode of \<^typ>\<open>Op\<close> has its case, so the
  \<^verbatim>\<open>default\<close> panic is not reached). The first argument is the fuel of the deep copies.
  \<^verbatim>\<open>FeedMulti\<close> stops at the first error.
\<close>

fun Feed :: "nat \<Rightarrow> Op \<Rightarrow> state \<Rightarrow> failure option \<times> state" where
  "Feed fuel Inew = feedInew"
| "Feed fuel Iinc = feedIinc"
| "Feed fuel Ishl = feedIshl"
| "Feed fuel Iadd = feedIadd"
| "Feed fuel Ineg = feedIneg"
| "Feed fuel Isht = feedIsht"
| "Feed fuel Itof = feedItof"
| "Feed fuel Itou = feedItou"
| "Feed fuel Finf = feedFinf"
| "Feed fuel Fnan = feedFnan"
| "Feed fuel Fneg = feedFneg"
| "Feed fuel Snew = feedSnew"
| "Feed fuel Sadd = feedSadd"
| "Feed fuel Onew = feedOnew"
| "Feed fuel Oadd = feedOadd fuel"
| "Feed fuel Anew = feedAnew"
| "Feed fuel Aadd = feedAadd fuel"
| "Feed fuel Bnew = feedBnew"
| "Feed fuel Bneg = feedBneg"
| "Feed fuel Nnew = feedNnew"
| "Feed fuel Gdup = feedGdup fuel"
| "Feed fuel Gpop = feedGpop"
| "Feed fuel Gswp = feedGswp"

fun FeedMulti :: "nat \<Rightarrow> Op list \<Rightarrow> state \<Rightarrow> failure option \<times> state" where
  "FeedMulti fuel [] s = (None, s)"
| "FeedMulti fuel (op # ops) s =
    (case Feed fuel op s of
       (Some e, s1) \<Rightarrow> (Some e, s1)
     | (None, s1) \<Rightarrow> FeedMulti fuel ops s1)"

subsection \<open>Vocabulary for the statements\<close>

text \<open>
  The capacity is the length of \<^verbatim>\<open>vm.stack\<close>; the stack holds \<^verbatim>\<open>sp + 1\<close> values;
  \<open>stack_cell s i\<close> is the value \<open>i\<close> places below the top, \<open>popped s\<close> the state after one
  successful \<^verbatim>\<open>pop\<close>.
\<close>

definition capacity :: "state \<Rightarrow> int" where
  "capacity s = int (length (stack s))"

definition depth :: "state \<Rightarrow> int" where
  "depth s = sp s + 1"

definition stack_cell :: "state \<Rightarrow> nat \<Rightarrow> cell option" where
  "stack_cell s i =
    (if int i \<le> sp s \<and> sp s < int (length (stack s))
     then deref s (stack s ! nat (sp s - int i)) else None)"

definition popped :: "state \<Rightarrow> state" where
  "popped s = s\<lparr>stack := (stack s)[nat (sp s) := None], sp := sp s - 1\<rparr>"

datatype kind = KInt | KUint | KFloat | KString | KObject | KArray | KBool | KNil

fun kind_of :: "cell \<Rightarrow> kind" where
  "kind_of (CInt _) = KInt"
| "kind_of (CUint _) = KUint"
| "kind_of (CFloat _) = KFloat"
| "kind_of (CString _) = KString"
| "kind_of (CObject _) = KObject"
| "kind_of (CArray _) = KArray"
| "kind_of (CBool _) = KBool"
| "kind_of CNil = KNil"

text \<open>
  The kind that the first pop of an operation compares with, for the operations whose first
  pop is a typed one (\<^verbatim>\<open>popInt\<close>, \<^verbatim>\<open>popFloat\<close>, \<^verbatim>\<open>popBool\<close>); \<^const>\<open>None\<close> for the others,
  which start with a push or with the untyped \<^verbatim>\<open>pop\<close>.
\<close>

fun first_pop_kind :: "Op \<Rightarrow> kind option" where
  "first_pop_kind Iinc = Some KInt"
| "first_pop_kind Ishl = Some KInt"
| "first_pop_kind Iadd = Some KInt"
| "first_pop_kind Ineg = Some KInt"
| "first_pop_kind Isht = Some KInt"
| "first_pop_kind Itof = Some KInt"
| "first_pop_kind Itou = Some KInt"
| "first_pop_kind Sadd = Some KInt"
| "first_pop_kind Fneg = Some KFloat"
| "first_pop_kind Bneg = Some KBool"
| "first_pop_kind _ = None"

text \<open>The kind compared by the second pop of \<^verbatim>\<open>feedOadd\<close> and \<^verbatim>\<open>feedAadd\<close>, after the untyped one.\<close>

fun second_pop_kind :: "Op \<Rightarrow> kind option" where
  "second_pop_kind Oadd = Some KString"
| "second_pop_kind Aadd = Some KArray"
| "second_pop_kind _ = None"

subsection \<open>Example states\<close>

definition empty_vm :: "nat \<Rightarrow> state" where
  "empty_vm c = \<lparr>cells = [], objs = [], stack = replicate c None, sp = - 1\<rparr>"

definition bool_over_int :: state where
  "bool_over_int = \<lparr>cells = [CInt 7, CBool False], objs = [], stack = [Some 0, Some 1, None], sp = 1\<rparr>"

definition int_over_string :: state where
  "int_over_string =
     \<lparr>cells = [CString [], CInt 7, CInt 3], objs = [], stack = [Some 0, Some 1, Some 2], sp = 2\<rparr>"

definition min_shift :: state where
  "min_shift =
     \<lparr>cells = [CInt 1, CInt (- 9223372036854775808)], objs = [],
      stack = [Some 0, Some 1], sp = 1\<rparr>"

definition two_ints :: "int64 \<Rightarrow> int64 \<Rightarrow> state" where
  "two_ints a b = \<lparr>cells = [CInt a, CInt b], objs = [], stack = [Some 0, Some 1], sp = 1\<rparr>"


section \<open>The value a pointer stands for\<close>

text \<open>
  The document that a pointer of the store stands for, as a tree: the value model of the spec
  without addresses. \<open>repr_from lc lm s a t\<close> says that the pointer \<open>a\<close> stands for the tree
  \<open>t\<close> in the store of \<open>s\<close> and that every \<^verbatim>\<open>Value\<close> struct and every map reached on the way
  has an address of at least \<open>lc\<close> and \<open>lm\<close>; \<open>repr\<close> is the case without the bounds.
\<close>

datatype "value" =
    VInt int64
  | VUint uint64
  | VFloat "64 word"
  | VString bytes
  | VObject "(bytes \<times> value) list"
  | VArray "value list"
  | VBool bool
  | VNil

definition cell_at :: "nat \<Rightarrow> state \<Rightarrow> addr \<Rightarrow> cell option" where
  "cell_at lc s a = (if lc \<le> a \<and> a < length (cells s) then Some (cells s ! a) else None)"

fun repr_from :: "nat \<Rightarrow> nat \<Rightarrow> state \<Rightarrow> addr \<Rightarrow> value \<Rightarrow> bool" where
  "repr_from lc lm s a (VInt i) = (cell_at lc s a = Some (CInt i))"
| "repr_from lc lm s a (VUint i) = (cell_at lc s a = Some (CUint i))"
| "repr_from lc lm s a (VFloat x) = (cell_at lc s a = Some (CFloat x))"
| "repr_from lc lm s a (VString b) = (cell_at lc s a = Some (CString b))"
| "repr_from lc lm s a (VBool b) = (cell_at lc s a = Some (CBool b))"
| "repr_from lc lm s a VNil = (cell_at lc s a = Some CNil)"
| "repr_from lc lm s a (VArray ts) =
    (case cell_at lc s a of
       Some (CArray xs) \<Rightarrow> list_all2 (\<lambda>x t. repr_from lc lm s x t) xs ts
     | _ \<Rightarrow> False)"
| "repr_from lc lm s a (VObject kts) =
    (case cell_at lc s a of
       Some (CObject m) \<Rightarrow>
         lm \<le> m \<and> m < length (objs s) \<and>
         list_all2 (\<lambda>kx kt. fst kx = fst kt \<and> repr_from lc lm s (snd kx) (snd kt))
           (objs s ! m) kts
     | _ \<Rightarrow> False)"

definition repr :: "state \<Rightarrow> addr \<Rightarrow> value \<Rightarrow> bool" where
  "repr s a t = repr_from 0 0 s a t"

text \<open>The nesting depth of a tree: the fuel a deep copy of it needs.\<close>

fun height :: "value \<Rightarrow> nat" where
  "height (VArray ts) = Suc (foldr max (map height ts) 0)"
| "height (VObject kts) = Suc (foldr max (map (\<lambda>kt. height (snd kt)) kts) 0)"
| "height _ = 1"

text \<open>
  \<open>agree_from lc lm s s'\<close>: the store of \<open>s'\<close> has every struct and map of \<open>s\<close>, and those with
  addresses from \<open>lc\<close> and \<open>lm\<close> on have the contents they have in \<open>s\<close>. The structs and maps
  below these addresses may differ in any way: this is how a later mutation of memory that was
  allocated before \<open>lc\<close> and \<open>lm\<close> is expressed.
\<close>

definition agree_from :: "nat \<Rightarrow> nat \<Rightarrow> state \<Rightarrow> state \<Rightarrow> bool" where
  "agree_from lc lm s s' \<longleftrightarrow>
     length (cells s) \<le> length (cells s') \<and> length (objs s) \<le> length (objs s')
     \<and> drop lc (take (length (cells s)) (cells s')) = drop lc (cells s)
     \<and> drop lm (take (length (objs s)) (objs s')) = drop lm (objs s)"

text \<open>The pointer \<open>i\<close> places below the top of the stack.\<close>

definition stack_ptr :: "state \<Rightarrow> nat \<Rightarrow> addr option" where
  "stack_ptr s i =
    (if int i \<le> sp s \<and> sp s < int (length (stack s)) then stack s ! nat (sp s - int i) else None)"

text \<open>
  \<open>extends s s'\<close>: \<open>s'\<close> has the store of \<open>s\<close> with further structs and maps allocated
  after it, and the same stack.
\<close>

definition extends :: "state \<Rightarrow> state \<Rightarrow> bool" where
  "extends s s' \<longleftrightarrow>
     length (cells s) \<le> length (cells s') \<and> take (length (cells s)) (cells s') = cells s
     \<and> length (objs s) \<le> length (objs s') \<and> take (length (objs s)) (objs s') = objs s
     \<and> stack s' = stack s \<and> sp s' = sp s"

subsection \<open>Example state for \<^const>\<open>Oadd\<close>\<close>

text \<open>
  Under the top three stack entries: the object \<^verbatim>\<open>{"a": 1}\<close>, the key \<^verbatim>\<open>"a"\<close> and the array
  \<^verbatim>\<open>[1]\<close>, whose element is the struct the object's entry points to. \<open>mutate_v\<close> overwrites
  the two structs of the array.
\<close>

definition oadd_state :: state where
  "oadd_state =
     \<lparr>cells = [CObject 0, CString ''a'', CInt 1, CArray [2]],
      objs = [ [(''a'', 2)] ],
      stack = [Some 0, Some 1, Some 3, None], sp = 2\<rparr>"

definition mutate_v :: "state \<Rightarrow> state" where
  "mutate_v s = s\<lparr>cells := (cells s)[2 := CInt 99, 3 := CArray []]\<rparr>"


section \<open>The reflective bridge\<close>

text \<open>
  Package types, \<^verbatim>\<open>ToValue\<close> and \<^verbatim>\<open>ToValueByReflection\<close>. The result is the document itself, a
  \<^typ>\<open>value\<close>: no claim about the bridge depends on sharing. A panic is \<^const>\<open>None\<close>.

  A host value is what \<^verbatim>\<open>reflect\<close> shows of it: its kind with the payload of the kind, and of
  its type what the code asks. \<^verbatim>\<open>Predeclared\<close> is a dynamic type that is exactly one of
  \<^verbatim>\<open>bool\<close>, \<^verbatim>\<open>int\<close>, ..., \<^verbatim>\<open>uint64\<close>, \<^verbatim>\<open>string\<close>, \<^verbatim>\<open>float32\<close>, \<^verbatim>\<open>float64\<close>, the types of
  the type switch of \<^verbatim>\<open>ToValue\<close>; these types have no methods. Any other type either has
  \<^verbatim>\<open>MarshalWatson\<close> in its method set (\<open>WithMarshal r\<close>, with the value \<open>r\<close> that the method
  returns for this host value) or has not. Integers are given as \<^verbatim>\<open>reflect.Value.Int\<close> and
  \<^verbatim>\<open>Uint\<close> return them (widened to 64 bits, as \<^verbatim>\<open>int64(v)\<close> and \<^verbatim>\<open>uint64(v)\<close> do), floats as the
  bits of \<^verbatim>\<open>reflect.Value.Float\<close>, strings as their bytes. A pointer, slice, map or interface
  value is \<^const>\<open>None\<close> when it is nil; maps are those with string keys, their entries in the
  order of the iteration; a host value is a finite tree. \<open>ROther\<close> is a value of any kind
  the bridge has no rule for, with a flag saying whether it is the zero value.
\<close>

datatype rtype = Predeclared | WithoutMarshal | WithMarshal "value"

datatype tag = Tag (tag_name: string) (tag_flags: "string list")

datatype field = Field (field_name: string) (exported: bool) (field_tag: "tag option")

datatype rvalue =
    RBool rtype bool
  | RInt rtype int64
  | RUint rtype uint64
  | RFloat rtype "64 word"
  | RString rtype string
  | RArray rtype "rvalue list"
  | RSlice rtype "rvalue list option"
  | RStruct rtype "(field \<times> rvalue) list"
  | RPtr rtype "rvalue option"
  | RMap rtype "(string \<times> rvalue) list option"
  | RInterface "rvalue option"
  | ROther rtype bool

fun rtype_of :: "rvalue \<Rightarrow> rtype" where
  "rtype_of (RBool ty _) = ty"
| "rtype_of (RInt ty _) = ty"
| "rtype_of (RUint ty _) = ty"
| "rtype_of (RFloat ty _) = ty"
| "rtype_of (RString ty _) = ty"
| "rtype_of (RArray ty _) = ty"
| "rtype_of (RSlice ty _) = ty"
| "rtype_of (RStruct ty _) = ty"
| "rtype_of (RPtr ty _) = ty"
| "rtype_of (RMap ty _) = ty"
| "rtype_of (RInterface _) = WithoutMarshal"
| "rtype_of (ROther ty _) = ty"

text \<open>
  The type assertion \<^verbatim>\<open>v.(Marshaler)\<close> and the call of \<^verbatim>\<open>MarshalWatson\<close>: the result of the
  method when the type has it.
\<close>

definition marshaler :: "rvalue \<Rightarrow> value option" where
  "marshaler v = (case rtype_of v of WithMarshal r \<Rightarrow> Some r | _ \<Rightarrow> None)"

text \<open>
  Modelled from the spec: \<^verbatim>\<open>isMarshaler\<close> is not among the sources; it is the test for the
  marshal capability on a \<^verbatim>\<open>reflect.Value\<close>.
\<close>

definition isMarshaler :: "rvalue \<Rightarrow> bool" where
  "isMarshaler v = (marshaler v \<noteq> None)"

text \<open>
  Modelled from the spec: \<^verbatim>\<open>parseTag\<close> and the methods of its result are not among the
  sources. A field tag has the shape \<^verbatim>\<open>name,flag,flag,...\<close>; the key is the tag's name, and the
  field's name when the field has no tag; the name \<^verbatim>\<open>-\<close> means that the field is always
  omitted; the flags are \<^verbatim>\<open>omitempty\<close> and \<^verbatim>\<open>inline\<close>.
\<close>

definition Key :: "field \<Rightarrow> string" where
  "Key f = (case field_tag f of None \<Rightarrow> field_name f | Some t \<Rightarrow> tag_name t)"

definition ShouldAlwaysOmit :: "field \<Rightarrow> bool" where
  "ShouldAlwaysOmit f = (case field_tag f of None \<Rightarrow> False | Some t \<Rightarrow> tag_name t = ''-'')"

definition OmitEmpty :: "field \<Rightarrow> bool" where
  "OmitEmpty f = (case field_tag f of None \<Rightarrow> False | Some t \<Rightarrow> ''omitempty'' \<in> set (tag_flags t))"

definition Inline :: "field \<Rightarrow> bool" where
  "Inline f = (case field_tag f of None \<Rightarrow> False | Some t \<Rightarrow> ''inline'' \<in> set (tag_flags t))"

text \<open>
  \<^verbatim>\<open>reflect.Value.IsZero\<close>: false, 0, the float with all bits 0, the empty string, nil, and an
  array or struct of zero values.
\<close>

fun IsZero :: "rvalue \<Rightarrow> bool" where
  "IsZero (RBool _ b) = (\<not> b)"
| "IsZero (RInt _ i) = (i = 0)"
| "IsZero (RUint _ u) = (u = 0)"
| "IsZero (RFloat _ x) = (x = 0)"
| "IsZero (RString _ s) = (s = [])"
| "IsZero (RArray _ xs) = list_all (\<lambda>x. IsZero x) xs"
| "IsZero (RSlice _ xs) = (xs = None)"
| "IsZero (RStruct _ fs) = list_all (\<lambda>fe. IsZero (snd fe)) fs"
| "IsZero (RPtr _ p) = (p = None)"
| "IsZero (RMap _ m) = (m = None)"
| "IsZero (RInterface i) = (i = None)"
| "IsZero (ROther _ z) = z"

text \<open>
  \<^verbatim>\<open>reflect.Value.Interface\<close>: the value as an \<^verbatim>\<open>interface{}\<close>, which for a value of interface
  kind is the value inside (or the nil interface, \<^const>\<open>None\<close>).
\<close>

fun Interface :: "rvalue \<Rightarrow> rvalue option" where
  "Interface (RInterface i) = i"
| "Interface v = Some v"

text \<open>The type switch at the head of \<^verbatim>\<open>ToValue\<close>: its cases match the predeclared types only.\<close>

fun type_switch :: "rvalue \<Rightarrow> value option" where
  "type_switch (RBool Predeclared b) = Some (VBool b)"
| "type_switch (RInt Predeclared i) = Some (VInt i)"
| "type_switch (RUint Predeclared u) = Some (VUint u)"
| "type_switch (RString Predeclared s) = Some (VString s)"
| "type_switch (RFloat Predeclared x) = Some (VFloat x)"
| "type_switch _ = None"

text \<open>
  Modelled from the spec: the predicates \<^verbatim>\<open>isIntFamily\<close>, \<^verbatim>\<open>isUintFamily\<close>, ..., \<^verbatim>\<open>isSlice\<close>
  are not among the sources. Each is taken as the test for the kind that its name says,
  \<^verbatim>\<open>isNil\<close> as the test for a nil pointer, map, slice or interface, and
  \<^verbatim>\<open>isMapConvertibleToValue\<close> as the test for a map with string keys; they are the patterns
  of the case distinction in \<^verbatim>\<open>ToValueByReflection\<close> below.
\<close>

text \<open>
  The conversion, from the source. The first argument of the functions below \<^verbatim>\<open>ToValue\<close> says
  whether the \<^verbatim>\<open>reflect.Value\<close> was reached through an unexported field: then
  \<^verbatim>\<open>CanInterface\<close> is false, and calling a method through \<^verbatim>\<open>reflect\<close> panics (the flag is
  passed on to everything below such a field; Go's special treatment of embedded fields is
  not modelled). \<open>elemToValue\<close> is the recurring
  \<^verbatim>\<open>if elem.CanInterface() { ToValue(elem.Interface()) } else { ToValueByReflection(elem) }\<close>.
  The cases of \<^verbatim>\<open>ToValueByReflection\<close> are in the order of its \<^verbatim>\<open>if\<close> chain: marshaler, the
  integer, unsigned and float families, bool, string, array, struct, nil, pointer, map, slice,
  and the panic at the end. \<open>sliceOrArrayElems\<close>, \<open>reflectMapEntries\<close> and
  \<^verbatim>\<open>addFields\<close> are the three iterations; the last two assign into the map \<^verbatim>\<open>obj\<close>.
  \<^verbatim>\<open>addFields\<close> on a value that is not a struct panics at \<^verbatim>\<open>NumField\<close>.
\<close>

function ToValue :: "rvalue option \<Rightarrow> value option"
  and ToValueByReflection :: "bool \<Rightarrow> rvalue \<Rightarrow> value option"
  and elemToValue :: "bool \<Rightarrow> rvalue \<Rightarrow> value option"
  and sliceOrArrayElems :: "bool \<Rightarrow> rvalue list \<Rightarrow> value list option"
  and reflectMapEntries ::
    "bool \<Rightarrow> (string \<times> value) list \<Rightarrow> (string \<times> rvalue) list \<Rightarrow> (string \<times> value) list option"
  and addFields ::
    "bool \<Rightarrow> (string \<times> value) list \<Rightarrow> (field \<times> rvalue) list \<Rightarrow> (string \<times> value) list option"
where
  "ToValue None = Some VNil"
| "ToValue (Some v) =
    (case type_switch v of
       Some r \<Rightarrow> Some r
     | None \<Rightarrow>
        (case marshaler v of
           Some r \<Rightarrow> Some r
         | None \<Rightarrow> ToValueByReflection False v))"
| "ToValueByReflection ro v =
    (if isMarshaler v then (if ro then None else marshaler v)
     else
      (case v of
         RInt _ i \<Rightarrow> Some (VInt i)
       | RUint _ u \<Rightarrow> Some (VUint u)
       | RFloat _ x \<Rightarrow> Some (VFloat x)
       | RBool _ b \<Rightarrow> Some (VBool b)
       | RString _ s \<Rightarrow> Some (VString s)
       | RArray _ xs \<Rightarrow> map_option VArray (sliceOrArrayElems ro xs)
       | RStruct _ fs \<Rightarrow> map_option VObject (addFields ro [] fs)
       | RPtr _ None \<Rightarrow> Some VNil
       | RMap _ None \<Rightarrow> Some VNil
       | RSlice _ None \<Rightarrow> Some VNil
       | RInterface None \<Rightarrow> Some VNil
       | RPtr _ (Some e) \<Rightarrow> elemToValue ro e
       | RMap _ (Some kvs) \<Rightarrow> map_option VObject (reflectMapEntries ro [] kvs)
       | RSlice _ (Some xs) \<Rightarrow> map_option VArray (sliceOrArrayElems ro xs)
       | _ \<Rightarrow> None))"
| "elemToValue ro e = (if \<not> ro then ToValue (Interface e) else ToValueByReflection ro e)"
| "sliceOrArrayElems ro [] = Some []"
| "sliceOrArrayElems ro (x # xs) =
    (case elemToValue ro x of
       None \<Rightarrow> None
     | Some y \<Rightarrow> map_option ((#) y) (sliceOrArrayElems ro xs))"
| "reflectMapEntries ro obj [] = Some obj"
| "reflectMapEntries ro obj ((k, x) # kvs) =
    (case elemToValue ro x of
       None \<Rightarrow> None
     | Some y \<Rightarrow> reflectMapEntries ro (AList.update k y obj) kvs)"
| "addFields ro obj [] = Some obj"
| "addFields ro obj ((f, elem) # fs) =
    (if ShouldAlwaysOmit f then addFields ro obj fs
     else if OmitEmpty f \<and> IsZero elem then addFields ro obj fs
     else if Inline f then
       (case elem of
          RStruct _ fs' \<Rightarrow>
            (case addFields (ro \<or> \<not> exported f) obj fs' of
               None \<Rightarrow> None
             | Some obj' \<Rightarrow> addFields ro obj' fs)
        | _ \<Rightarrow> None)
     else
       (case elemToValue (ro \<or> \<not> exported f) elem of
          None \<Rightarrow> None
        | Some y \<Rightarrow> addFields ro (AList.update (Key f) y obj) fs))"
  by pat_completeness auto
termination
proof (relation "inv_image (less_than <*lex*> less_than)
    (\<lambda>x. case x of
       Inl (Inl iv) \<Rightarrow> (case iv of None \<Rightarrow> 0 | Some v \<Rightarrow> size v, 2::nat)
     | Inl (Inr (Inl (ro, v))) \<Rightarrow> (size v, 1)
     | Inl (Inr (Inr (ro, e))) \<Rightarrow> (size e, 3)
     | Inr (Inl (ro, xs)) \<Rightarrow> (size (RArray WithoutMarshal xs), 0)
     | Inr (Inr (Inl (ro, obj, kvs))) \<Rightarrow> (size (RMap WithoutMarshal (Some kvs)), 0)
     | Inr (Inr (Inr (ro, obj, fs))) \<Rightarrow> (size (RStruct WithoutMarshal fs), 0))",
    goal_cases)
  case (8 ro e)
  then show ?case by (cases e) (auto split: option.splits)
qed auto

declare ToValueByReflection.simps [simp del] elemToValue.simps [simp del]

text \<open>
  The words of the spec on struct fields, as the list of keys a struct gives to its Object:
  a field named \<^verbatim>\<open>-\<close> gives none; a field with \<^verbatim>\<open>omitempty\<close> whose value is the zero value gives
  none; a field with \<^verbatim>\<open>inline\<close> gives the keys of its own fields (recursively) and not its
  own; every other field gives its tag name, or its field name when it has no tag.
\<close>

fun field_keys :: "(field \<times> rvalue) list \<Rightarrow> string list" where
  "field_keys [] = []"
| "field_keys ((f, elem) # fs) =
    (if ShouldAlwaysOmit f then []
     else if OmitEmpty f \<and> IsZero elem then []
     else if Inline f then (case elem of RStruct _ fs' \<Rightarrow> field_keys fs' | _ \<Rightarrow> [])
     else [Key f]) @ field_keys fs"

subsection \<open>Example host values\<close>

definition person_fields :: "(field \<times> rvalue) list" where
  "person_fields =
    [(Field ''Secret'' True (Some (Tag ''-'' [])), RInt Predeclared 1),
     (Field ''Opt'' True (Some (Tag ''opt'' [''omitempty''])), RString Predeclared []),
     (Field ''Inner'' True (Some (Tag ''inner'' [''inline''])),
        RStruct WithoutMarshal [(Field ''X'' True None, RInt Predeclared 2)]),
     (Field ''Name'' True (Some (Tag ''name'' [])), RString Predeclared ''n''),
     (Field ''Age'' True None, RInt Predeclared 3)]"

definition person_object :: "(string \<times> value) list" where
  "person_object = [(''X'', VInt 2), (''name'', VString ''n''), (''Age'', VInt 3)]"


section \<open>Properties of the lexer\<close>

lemma opTableA_dom:
  "dom opTableA = set (map fst opTableA_entries)"
  by (simp add: opTableA_def dom_map_of_conv_image_fst)

lemma opTableA_ran: "ran opTableA = UNIV - {Itou}"
proof -
  have d: "distinct (map fst opTableA_entries)"
    by (simp add: opTableA_entries_def)
  have "ran opTableA = snd ` set opTableA_entries"
    unfolding opTableA_def by (rule ran_distinct [OF d])
  also have "\<dots> = set all_ops - {Itou}"
    by (simp add: opTableA_entries_def all_ops_def) blast
  also have "set all_ops = UNIV"
  proof -
    have "x \<in> set all_ops" for x by (cases x) (simp_all add: all_ops_def)
    then show ?thesis by blast
  qed
  finally show ?thesis .
qed


lemma opTableS_ran: "ran opTableS = UNIV - {Itou}"
proof -
  have d: "distinct (map fst opTableS_entries)"
    by (simp add: opTableS_entries_def)
  have "ran opTableS = snd ` set opTableS_entries"
    unfolding opTableS_def by (rule ran_distinct [OF d])
  also have "\<dots> = set all_ops - {Itou}"
    by (simp add: opTableS_entries_def all_ops_def) blast
  also have "set all_ops = UNIV"
  proof -
    have "x \<in> set all_ops" for x by (cases x) (simp_all add: all_ops_def)
    then show ?thesis by blast
  qed
  finally show ?thesis .
qed

lemma opTableA_inj: "inj_on opTableA (dom opTableA)"
  unfolding opTableA_dom
  by (simp add: opTableA_def opTableA_entries_def)

lemma opTableS_inj: "inj_on opTableS (dom opTableS)"
  by (simp add: dom_map_of_conv_image_fst opTableS_def opTableS_entries_def)


lemma readOp_any_mode: "readOp m b = opTableA b"
  by (simp add: readOp_def)

lemma Next_skips:
  "Next (b # r) = (if b \<in> dom opTableA then (Inr (the (opTableA b)), r) else Next r)"
  by (auto simp: readOp_def split: option.splits)

text \<open>
  Claim C1 (every byte is translated with the table of the lexer's mode; in mode S the
  byte \<^verbatim>\<open>$\<close> gives the opcode table S has for it). The code does not do this: table S maps
  \<^verbatim>\<open>$\<close> to \<^const>\<open>Snew\<close> and table A has no entry for it, yet \<^const>\<open>readOp\<close> in mode S finds
  nothing for \<^verbatim>\<open>$\<close>, and \<^const>\<open>Next\<close> on the one-byte input \<^verbatim>\<open>$\<close> skips the byte and reports the
  end of the input.
\<close>

theorem C1_mode_S_reads_table_A:
  "opTableS (CHR ''$'') = Some Snew
   \<and> opTableA (CHR ''$'') = None
   \<and> readOp S (CHR ''$'') = None
   \<and> Next [CHR ''$''] = (Inl EOF, [])"
  by (simp add: readOp_def opTableA_def opTableS_def opTableA_entries_def opTableS_entries_def)

text \<open>
  Claim C2 (each table has exactly one byte for each of the 23 opcodes, \<^const>\<open>Itou\<close>
  included, and is injective). The code has no byte for \<^const>\<open>Itou\<close>: it is in the range of
  neither table, both reversed tables lack it, and \<^const>\<open>showOp\<close> panics on it in either mode.
  (The tables are injective and reach the 22 other opcodes: \<open>opTableA_ran\<close>,
  \<open>opTableS_ran\<close>, \<open>opTableA_inj\<close>, \<open>opTableS_inj\<close>.)
\<close>

theorem C2_Itou_has_no_byte:
  "Itou \<notin> ran opTableA \<and> Itou \<notin> ran opTableS
   \<and> reversedTableA Itou = None \<and> reversedTableS Itou = None
   \<and> showOp A Itou = None \<and> showOp S Itou = None"
proof -
  have r: "reversedTableA Itou = None"
    by (simp add: reversedTableA_def reverse_table_def opTableA_entries_def)
  have s: "reversedTableS Itou = None"
    by (simp add: reversedTableS_def reverse_table_def opTableS_entries_def)
  show ?thesis
    by (simp add: opTableA_ran opTableS_ran r s showOp_def)
qed

section \<open>Properties of the virtual machine\<close>

lemma pop_ok:
  "0 \<le> sp s \<Longrightarrow> sp s < int (length (stack s)) \<Longrightarrow>
   pop s = (Inr (stack s ! nat (sp s)), popped s)"
  by (simp add: pop_def popped_def)

lemma pop_empty: "sp s < 0 \<Longrightarrow> pop s = (Inl ErrStackEmpty, s)"
  by (simp add: pop_def)

lemma pop_kind_empty: "sp s < 0 \<Longrightarrow> pop_kind p s = (Inl ErrStackEmpty, s)"
  by (simp add: pop_kind_def pop_empty)

lemma deref_popped [simp]: "deref (popped s) p = deref s p"
  by (cases p) (simp_all add: deref_def popped_def)

lemma popped_simps [simp]:
  "sp (popped s) = sp s - 1"
  "length (stack (popped s)) = length (stack s)"
  "cells (popped s) = cells s"
  "objs (popped s) = objs s"
  by (simp_all add: popped_def)

lemma stack_cell_top:
  "stack_cell s 0 = Some c \<Longrightarrow>
   0 \<le> sp s \<and> sp s < int (length (stack s)) \<and> deref s (stack s ! nat (sp s)) = Some c"
  by (simp add: stack_cell_def split: if_splits)

lemma stack_cell_popped:
  "stack_cell s (Suc i) = Some c \<Longrightarrow> stack_cell (popped s) i = Some c"
proof -
  assume a: "stack_cell s (Suc i) = Some c"
  then have b: "int (Suc i) \<le> sp s" "sp s < int (length (stack s))"
    by (simp_all add: stack_cell_def split: if_splits)
  then have e: "nat (sp s - 1 - int i) = nat (sp s - int (Suc i))"
    and n: "nat (sp s) \<noteq> nat (sp s - int (Suc i))"
    by simp_all
  have "stack (popped s) ! nat (sp s - int (Suc i)) = stack s ! nat (sp s - int (Suc i))"
    using n by (simp add: popped_def)
  then show ?thesis
    using a b e by (simp add: stack_cell_def)
qed

lemma pop_kind_top:
  "stack_cell s 0 = Some c \<Longrightarrow>
   pop_kind p s = (case p c of None \<Rightarrow> (Inl ErrTypeMismatch, popped s) | Some x \<Rightarrow> (Inr x, popped s))"
  by (drule stack_cell_top) (simp add: pop_kind_def pop_ok)

lemma push_ok:
  "- 1 \<le> sp s \<Longrightarrow> sp s + 1 < int (length (stack s)) \<Longrightarrow>
   push v s = (None, s\<lparr>stack := (stack s)[nat (sp s + 1) := v], sp := sp s + 1\<rparr>)"
  by (simp add: push_def)

lemma push_full:
  "int (length (stack s)) - 1 \<le> sp s \<Longrightarrow> push v s = (Some ErrMaximumStackSizeExceeded, s)"
  by (simp add: push_def)

lemma Top_push:
  "- 1 \<le> sp s \<Longrightarrow> sp s + 1 < int (length (stack s)) \<Longrightarrow> Top (snd (push v s)) = Inr v"
  by (simp add: push_ok Top_def)

text \<open>
  Claim C9: with capacity \<open>C\<close>, a pop or a \<^verbatim>\<open>Top\<close> on the empty stack (\<^verbatim>\<open>sp < 0\<close>) returns
  \<^const>\<open>ErrStackEmpty\<close> (so does every typed pop, and the state is as before); a push onto a
  stack that holds \<open>C\<close> values returns \<^const>\<open>ErrMaximumStackSizeExceeded\<close> and leaves the state
  as it is; a push onto a stack that holds at most \<open>C - 1\<close> values succeeds, and the pushed
  pointer is the new top.
\<close>

theorem C9_stack_errors:
  "(sp s < 0 \<longrightarrow>
      pop s = (Inl ErrStackEmpty, s) \<and> Top s = Inl ErrStackEmpty
      \<and> pop_kind p s = (Inl ErrStackEmpty, s))
   \<and> (depth s = capacity s \<longrightarrow> push v s = (Some ErrMaximumStackSizeExceeded, s))
   \<and> (0 \<le> depth s \<and> depth s \<le> capacity s - 1 \<longrightarrow>
        fst (push v s) = None \<and> depth (snd (push v s)) = depth s + 1
        \<and> Top (snd (push v s)) = Inr v)"
proof (intro conjI impI)
  assume "sp s < 0"
  then show "pop s = (Inl ErrStackEmpty, s)" "Top s = Inl ErrStackEmpty"
    "pop_kind p s = (Inl ErrStackEmpty, s)"
    by (simp_all add: pop_empty pop_kind_empty Top_def)
next
  assume "depth s = capacity s"
  then show "push v s = (Some ErrMaximumStackSizeExceeded, s)"
    by (simp add: push_full depth_def capacity_def)
next
  assume a: "0 \<le> depth s \<and> depth s \<le> capacity s - 1"
  then have b: "- 1 \<le> sp s" "sp s + 1 < int (length (stack s))"
    by (simp_all add: depth_def capacity_def)
  show "fst (push v s) = None" "depth (snd (push v s)) = depth s + 1"
    "Top (snd (push v s)) = Inr v"
    using b by (simp_all add: push_ok depth_def Top_def)
qed

theorem C9_stack_errors_witness:
  "pop (empty_vm 2) = (Inl ErrStackEmpty, empty_vm 2)
   \<and> Top (empty_vm 2) = Inl ErrStackEmpty
   \<and> popInt (empty_vm 2) = (Inl ErrStackEmpty, empty_vm 2)
   \<and> push (Some 0) (empty_vm 0) = (Some ErrMaximumStackSizeExceeded, empty_vm 0)
   \<and> fst (push (Some 0) (empty_vm 2)) = None
   \<and> Top (snd (push (Some 0) (empty_vm 2))) = Inr (Some 0)"
proof -
  have e: "sp (empty_vm 2) < 0" by (simp add: empty_vm_def)
  have f: "depth (empty_vm 0) = capacity (empty_vm 0)"
    by (simp add: empty_vm_def depth_def capacity_def)
  have g: "0 \<le> depth (empty_vm 2) \<and> depth (empty_vm 2) \<le> capacity (empty_vm 2) - 1"
    by (simp add: empty_vm_def depth_def capacity_def)
  show ?thesis
    using C9_stack_errors [of "empty_vm 2" "\<lambda>c. case c of CInt i \<Rightarrow> Some i | _ \<Rightarrow> None" "Some 0"]
      C9_stack_errors [of "empty_vm 0" "\<lambda>c. None :: unit option" "Some 0"] e f g
    by (simp add: popInt_def)
qed

text \<open>
  Claim C10: on a stack that holds exactly one value, \<^const>\<open>Gswp\<close> returns
  \<^const>\<open>ErrStackEmpty\<close> and leaves the stack empty: the one value has been popped, its slot
  cleared, and it is not pushed back.
\<close>

theorem C10_Gswp_one_value:
  assumes "depth s = 1" and "1 \<le> capacity s"
  shows "Feed fuel Gswp s = (Some ErrStackEmpty, popped s)
    \<and> depth (popped s) = 0
    \<and> Top (popped s) = Inl ErrStackEmpty
    \<and> stack (popped s) ! 0 = None"
proof -
  from assms have a: "sp s = 0" "0 < length (stack s)" "stack s \<noteq> []"
    by (auto simp: depth_def capacity_def)
  then have "Feed fuel Gswp s = (Some ErrStackEmpty, popped s)"
    by (simp add: feedGswp_def and_then_def pop_ok pop_empty)
  moreover have "depth (popped s) = 0" "Top (popped s) = Inl ErrStackEmpty"
    "stack (popped s) ! 0 = None"
    using a by (simp_all add: depth_def Top_def popped_def)
  ultimately show ?thesis by simp
qed

theorem C10_Gswp_one_value_witness:
  "Feed 0 Gswp \<lparr>cells = [CInt 5], objs = [], stack = [Some 0, None], sp = 0\<rparr>
     = (Some ErrStackEmpty, \<lparr>cells = [CInt 5], objs = [], stack = [None, None], sp = - 1\<rparr>)"
  using C10_Gswp_one_value
    [of "\<lparr>cells = [CInt 5], objs = [], stack = [Some 0, None], sp = 0\<rparr>" 0]
  by (simp add: depth_def capacity_def popped_def)

subsection \<open>Typed pops\<close>

lemma mismatch_payload:
  "kind_of c \<noteq> KInt \<Longrightarrow> (case c of CInt i \<Rightarrow> Some i | _ \<Rightarrow> None) = None"
  "kind_of c \<noteq> KFloat \<Longrightarrow> (case c of CFloat x \<Rightarrow> Some x | _ \<Rightarrow> None) = None"
  "kind_of c \<noteq> KBool \<Longrightarrow> (case c of CBool b \<Rightarrow> Some b | _ \<Rightarrow> None) = None"
  "kind_of c \<noteq> KString \<Longrightarrow> (case c of CString b \<Rightarrow> Some b | _ \<Rightarrow> None) = None"
  "kind_of c \<noteq> KArray \<Longrightarrow> (case c of CArray xs \<Rightarrow> Some xs | _ \<Rightarrow> None) = None"
  "kind_of c \<noteq> KObject \<Longrightarrow> (case c of CObject m \<Rightarrow> Some m | _ \<Rightarrow> None) = None"
  by (cases c; simp)+

lemma popInt_mismatch:
  "stack_cell s 0 = Some c \<Longrightarrow> kind_of c \<noteq> KInt \<Longrightarrow> popInt s = (Inl ErrTypeMismatch, popped s)"
  by (simp add: popInt_def pop_kind_top mismatch_payload)

lemma popFloat_mismatch:
  "stack_cell s 0 = Some c \<Longrightarrow> kind_of c \<noteq> KFloat \<Longrightarrow> popFloat s = (Inl ErrTypeMismatch, popped s)"
  by (simp add: popFloat_def pop_kind_top mismatch_payload)

lemma popBool_mismatch:
  "stack_cell s 0 = Some c \<Longrightarrow> kind_of c \<noteq> KBool \<Longrightarrow> popBool s = (Inl ErrTypeMismatch, popped s)"
  by (simp add: popBool_def pop_kind_top mismatch_payload)

lemma popString_mismatch:
  "stack_cell s 0 = Some c \<Longrightarrow> kind_of c \<noteq> KString \<Longrightarrow>
   popString s = (Inl ErrTypeMismatch, popped s)"
  by (simp add: popString_def pop_kind_top mismatch_payload)

lemma popArray_mismatch:
  "stack_cell s 0 = Some c \<Longrightarrow> kind_of c \<noteq> KArray \<Longrightarrow>
   popArray s = (Inl ErrTypeMismatch, popped s)"
  by (simp add: popArray_def pop_kind_top mismatch_payload)

lemma popInt_top:
  "stack_cell s 0 = Some (CInt i) \<Longrightarrow> popInt s = (Inr i, popped s)"
  by (simp add: popInt_def pop_kind_top)

lemma popString_top:
  "stack_cell s 0 = Some (CString b) \<Longrightarrow> popString s = (Inr b, popped s)"
  by (simp add: popString_def pop_kind_top)

lemma popObject_top:
  "stack_cell s 0 = Some (CObject m) \<Longrightarrow> popObject s = (Inr m, popped s)"
  by (simp add: popObject_def pop_kind_top)

lemma first_pop_mismatch:
  assumes c: "stack_cell s 0 = Some c" and k: "first_pop_kind op = Some k" and n: "kind_of c \<noteq> k"
  shows "Feed fuel op s = (Some ErrTypeMismatch, popped s)"
proof (cases op)
  case Iinc with c k n show ?thesis by (simp add: feedIinc_def and_then_def popInt_mismatch)
next
  case Ishl with c k n show ?thesis by (simp add: feedIshl_def and_then_def popInt_mismatch)
next
  case Iadd with c k n show ?thesis by (simp add: feedIadd_def and_then_def popInt_mismatch)
next
  case Ineg with c k n show ?thesis by (simp add: feedIneg_def and_then_def popInt_mismatch)
next
  case Isht with c k n show ?thesis by (simp add: feedIsht_def and_then_def popInt_mismatch)
next
  case Itof with c k n show ?thesis by (simp add: feedItof_def and_then_def popInt_mismatch)
next
  case Itou with c k n show ?thesis by (simp add: feedItou_def and_then_def popInt_mismatch)
next
  case Sadd with c k n show ?thesis by (simp add: feedSadd_def and_then_def popInt_mismatch)
next
  case Fneg with c k n show ?thesis by (simp add: feedFneg_def and_then_def popFloat_mismatch)
next
  case Bneg with c k n show ?thesis by (simp add: feedBneg_def and_then_def popBool_mismatch)
qed (use k in simp_all)

lemma second_pop_mismatch:
  assumes d: "stack_cell s 1 = Some d" and k: "second_pop_kind op = Some k" and n: "kind_of d \<noteq> k"
  shows "Feed fuel op s = (Some ErrTypeMismatch, popped (popped s))"
proof -
  from d have b: "0 \<le> sp s" "sp s < int (length (stack s))"
    by (simp_all add: stack_cell_def split: if_splits)
  from d have d': "stack_cell (popped s) 0 = Some d"
    by (simp add: stack_cell_popped)
  show ?thesis
  proof (cases op)
    case Oadd
    with k n d' b show ?thesis
      by (simp add: feedOadd_def and_then_def pop_ok popString_mismatch)
  next
    case Aadd
    with k n d' b show ?thesis
      by (simp add: feedAadd_def and_then_def pop_ok popArray_mismatch)
  qed (use k in simp_all)
qed

lemma Top_popped:
  assumes "0 \<le> sp s" and "sp s < int (length (stack s))"
  shows "Top (popped s) = (if sp s = 0 then Inl ErrStackEmpty else Inr (stack s ! nat (sp s - 1)))"
proof (cases "sp s = 0")
  case True
  then show ?thesis by (simp add: Top_def)
next
  case False
  with assms have "nat (sp s) \<noteq> nat (sp s - 1)" by simp
  then have "stack (popped s) ! nat (sp s - 1) = stack s ! nat (sp s - 1)"
    by (simp add: popped_def)
  with False assms show ?thesis by (simp add: Top_def)
qed

text \<open>
  Claim C3, as the code has it. When the first pop of an operation is a typed one and the
  value on top of the stack has another kind, \<^const>\<open>Feed\<close> returns \<^const>\<open>ErrTypeMismatch\<close> and
  the state is the one after a pop: the slot of the top is cleared and \<^verbatim>\<open>sp\<close> is one less, so
  \<^const>\<open>Top\<close> afterwards gives the pointer that was below the old top, and
  \<^const>\<open>ErrStackEmpty\<close> when there was none. In \<^const>\<open>Oadd\<close> and \<^const>\<open>Aadd\<close> the typed pop is
  the second one: when the value below the top has another kind than String (Array), the
  result is \<^const>\<open>ErrTypeMismatch\<close> after two pops.
\<close>

theorem C3_mismatch_pops_the_top:
  "(stack_cell s 0 = Some c \<and> first_pop_kind op = Some k \<and> kind_of c \<noteq> k \<longrightarrow>
      Feed fuel op s = (Some ErrTypeMismatch, popped s)
      \<and> Top (popped s) =
          (if sp s = 0 then Inl ErrStackEmpty else Inr (stack s ! nat (sp s - 1))))
   \<and> (stack_cell s 1 = Some d \<and> second_pop_kind op = Some k' \<and> kind_of d \<noteq> k' \<longrightarrow>
      Feed fuel op s = (Some ErrTypeMismatch, popped (popped s)))"
proof (intro conjI impI)
  assume a: "stack_cell s 0 = Some c \<and> first_pop_kind op = Some k \<and> kind_of c \<noteq> k"
  then show "Feed fuel op s = (Some ErrTypeMismatch, popped s)"
    by (simp add: first_pop_mismatch)
  from a have "0 \<le> sp s \<and> sp s < int (length (stack s))"
    by (simp add: stack_cell_def split: if_splits)
  then show "Top (popped s) =
      (if sp s = 0 then Inl ErrStackEmpty else Inr (stack s ! nat (sp s - 1)))"
    by (simp add: Top_popped)
next
  assume "stack_cell s 1 = Some d \<and> second_pop_kind op = Some k' \<and> kind_of d \<noteq> k'"
  then show "Feed fuel op s = (Some ErrTypeMismatch, popped (popped s))"
    by (simp add: second_pop_mismatch)
qed

theorem C3_mismatch_pops_the_top_witness:
  "Feed 0 Iinc bool_over_int = (Some ErrTypeMismatch, popped bool_over_int)
   \<and> Top (popped bool_over_int) = Inr (Some 0)
   \<and> Feed 0 Oadd int_over_string = (Some ErrTypeMismatch, popped (popped int_over_string))"
proof -
  have a: "stack_cell bool_over_int 0 = Some (CBool False)"
    by (simp add: stack_cell_def bool_over_int_def deref_def)
  have b: "stack_cell int_over_string 1 = Some (CInt 7)"
    by (simp add: stack_cell_def int_over_string_def deref_def)
  have c: "sp bool_over_int = 1" "stack bool_over_int ! 0 = Some 0"
    by (simp_all add: bool_over_int_def)
  show ?thesis
    using C3_mismatch_pops_the_top [of bool_over_int "CBool False" Iinc KInt 0 "CInt 7" KString]
      C3_mismatch_pops_the_top [of int_over_string "CInt 3" Oadd KInt 0 "CInt 7" KString] a b c
    by simp
qed

text \<open>
  The claim as the spec states it (the visible top is unchanged by the failed operation)
  fails: with a Bool over an Int, \<^const>\<open>Iinc\<close> returns \<^const>\<open>ErrTypeMismatch\<close>, and \<^const>\<open>Top\<close>,
  which gave the pointer to the Bool before, gives the pointer to the Int after.
\<close>

theorem C3_top_changes_counterexample:
  "stack_cell bool_over_int 0 = Some (CBool False)
   \<and> fst (Feed 0 Iinc bool_over_int) = Some ErrTypeMismatch
   \<and> Top bool_over_int = Inr (Some 1)
   \<and> Top (snd (Feed 0 Iinc bool_over_int)) = Inr (Some 0)
   \<and> Top (snd (Feed 0 Iinc bool_over_int)) \<noteq> Top bool_over_int"
proof -
  have a: "stack_cell bool_over_int 0 = Some (CBool False)"
    by (simp add: stack_cell_def bool_over_int_def deref_def)
  have f: "Feed 0 Iinc bool_over_int = (Some ErrTypeMismatch, popped bool_over_int)"
    by (rule first_pop_mismatch [OF a, of Iinc KInt]) simp_all
  have g: "Top (popped bool_over_int) = Inr (Some 0)" "Top bool_over_int = Inr (Some 1)"
    by (simp_all add: Top_def popped_def bool_over_int_def)
  show ?thesis
    unfolding f using a g by simp
qed

subsection \<open>Pushing a new value\<close>

lemma push_new_ok:
  assumes "- 1 \<le> sp s" and "sp s + 1 < int (length (stack s))"
  shows "push_new c s =
    (None, s\<lparr>cells := cells s @ [c],
             stack := (stack s)[nat (sp s + 1) := Some (length (cells s))],
             sp := sp s + 1\<rparr>)"
  using assms by (simp add: push_new_def new_value_def push_def)

lemma push_new_top:
  assumes "- 1 \<le> sp s" and "sp s + 1 < int (length (stack s))"
  shows "fst (push_new c s) = None"
    and "stack_cell (snd (push_new c s)) 0 = Some c"
    and "depth (snd (push_new c s)) = depth s + 1"
  using assms by (simp_all add: push_new_ok stack_cell_def deref_def depth_def)

lemma push_new_popped:
  assumes "stack_cell s 0 = Some c0"
  shows "fst (push_new c (popped s)) = None"
    and "stack_cell (snd (push_new c (popped s))) 0 = Some c"
    and "depth (snd (push_new c (popped s))) = depth s"
proof -
  from assms have "0 \<le> sp s" "sp s < int (length (stack s))"
    by (simp_all add: stack_cell_def split: if_splits)
  then have a: "- 1 \<le> sp (popped s)" "sp (popped s) + 1 < int (length (stack (popped s)))"
    by simp_all
  show "fst (push_new c (popped s)) = None"
    "stack_cell (snd (push_new c (popped s))) 0 = Some c"
    "depth (snd (push_new c (popped s))) = depth s"
    using push_new_top [OF a, of c] by (simp_all add: depth_def)
qed

subsection \<open>Shifts\<close>

lemma sint_min_iff: "sint (b :: int64) = - (2 ^ 63) \<longleftrightarrow> b = - 9223372036854775808"
proof
  assume "sint b = - (2 ^ 63)"
  then have "(word_of_int (sint b) :: int64) = word_of_int (- (2 ^ 63))" by (simp only:)
  moreover have "(word_of_int (sint b) :: int64) = b" by simp
  moreover have "(word_of_int (- (2 ^ 63)) :: int64) = - 9223372036854775808" by simp
  ultimately show "b = - 9223372036854775808" by (simp only:)
next
  assume "b = - 9223372036854775808"
  then show "sint b = - (2 ^ 63)" by simp
qed

lemma sint_uminus64:
  assumes "sint (b :: int64) \<noteq> - (2 ^ 63)"
  shows "sint (- b) = - sint b"
proof -
  have "- (2 ^ 63) \<le> sint b" "sint b < 2 ^ 63"
    using sint_ge [of b] sint_lt [of b] by simp_all
  with assms have r: "- (2 ^ 63) \<le> - sint b" "- sint b < 2 ^ 63" by simp_all
  have "sint (- b) = signed_take_bit 63 (- sint b)"
    by (simp add: sint_word_ariths)
  also have "\<dots> = - sint b"
    using r by (simp add: signed_take_bit_int_eq_self)
  finally show ?thesis .
qed

lemma shl64_nonneg:
  assumes "0 \<le> sint b"
  shows "shl64 a b = Inr (word_of_int (sint a * 2 ^ nat (sint b)))"
proof -
  have "\<not> b <s 0" using assms by (simp add: word_sless_alt)
  moreover have "push_bit (nat (sint b)) a = (word_of_int (sint a * 2 ^ nat (sint b)) :: int64)"
    by (simp add: push_bit_eq_mult)
  ultimately show ?thesis by (simp add: shl64_def)
qed

lemma shr64_neg:
  assumes "sint b < 0" and "sint b \<noteq> - (2 ^ 63)"
  shows "shr64 a (- b) = Inr (word_of_int (sint a div 2 ^ nat (- sint b)))"
proof -
  have m: "sint (- b) = - sint b" using assms(2) by (rule sint_uminus64)
  then have "\<not> - b <s 0" using assms(1) by (simp add: word_sless_alt)
  moreover have "signed_drop_bit n a = (word_of_int (sint a div 2 ^ n) :: int64)" for n
  proof -
    have "sint (signed_drop_bit n a) = sint a div 2 ^ n"
      by (simp add: sint_signed_drop_bit_eq drop_bit_eq_div)
    then have "word_of_int (sint (signed_drop_bit n a)) = (word_of_int (sint a div 2 ^ n) :: int64)"
      by simp
    then show ?thesis by simp
  qed
  ultimately show ?thesis by (simp add: shr64_def m)
qed

lemma shr64_min:
  assumes "sint b = - (2 ^ 63)"
  shows "shr64 a (- b) = Inl RuntimePanic"
proof -
  from assms have "b = - 9223372036854775808" by (rule iffD1 [OF sint_min_iff])
  then show ?thesis by (simp add: shr64_def word_sless_alt)
qed

lemma Isht_two_ints:
  assumes b: "stack_cell s 0 = Some (CInt b)" and a: "stack_cell s 1 = Some (CInt a)"
  shows "Feed fuel Isht s =
    (if sint b = - (2 ^ 63) then (Some RuntimePanic, popped (popped s))
     else push_new
       (CInt (if 0 \<le> sint b then word_of_int (sint a * 2 ^ nat (sint b))
              else word_of_int (sint a div 2 ^ nat (- sint b))))
       (popped (popped s)))"
proof -
  have a': "stack_cell (popped s) 0 = Some (CInt a)"
    using a by (simp add: stack_cell_popped)
  have f: "Feed fuel Isht s =
    (if 0 \<le> sint b then and_then (pure (shl64 a b)) pushInt (popped (popped s))
     else and_then (pure (shr64 a (- b))) pushInt (popped (popped s)))"
    by (simp add: feedIsht_def and_then_def popInt_top [OF b] popInt_top [OF a'] word_sle_eq)
  show ?thesis
  proof (cases "0 \<le> sint b")
    case True
    then have "sint b \<noteq> - (2 ^ 63)" by simp
    with True show ?thesis
      unfolding f by (simp add: shl64_nonneg and_then_def pure_def pushInt_def)
  next
    case False
    show ?thesis
    proof (cases "sint b = - (2 ^ 63)")
      case True
      with False show ?thesis
        unfolding f by (simp add: shr64_min and_then_def pure_def)
    next
      case ne: False
      from False have "sint b < 0" by simp
      with False ne show ?thesis
        unfolding f by (simp add: shr64_neg and_then_def pure_def pushInt_def)
    qed
  qed
qed

text \<open>
  Claim C4 (with Int \<open>a\<close> below Int \<open>b\<close>, \<^const>\<open>Isht\<close> pushes \<open>a << b\<close> for \<open>b \<ge> 0\<close> and the
  arithmetic \<open>a >> (- b)\<close> for \<open>b < 0\<close>, for every \<open>b\<close>, \<open>b = - 2^63\<close> included). For
  \<open>b = - 2^63\<close> the code does not push: the negation \<^verbatim>\<open>-b\<close> wraps to \<open>- 2^63\<close>, the shift count
  is negative, and the shift panics after both operands have been popped. (For every other
  \<open>b\<close> the claim holds, counts of 64 and more included: \<open>Isht_two_ints\<close>.)
\<close>

theorem C4_Isht_min_int_panics:
  "stack_cell min_shift 0 = Some (CInt (- 9223372036854775808))
   \<and> stack_cell min_shift 1 = Some (CInt 1)
   \<and> sint (- 9223372036854775808 :: int64) = - (2 ^ 63)
   \<and> Feed 0 Isht min_shift = (Some RuntimePanic, popped (popped min_shift))"
proof -
  have b: "stack_cell min_shift 0 = Some (CInt (- 9223372036854775808))"
    and a: "stack_cell min_shift 1 = Some (CInt 1)"
    by (simp_all add: stack_cell_def min_shift_def deref_def)
  have m: "sint (- 9223372036854775808 :: int64) = - (2 ^ 63)" by simp
  have "Feed 0 Isht min_shift = (Some RuntimePanic, popped (popped min_shift))"
    unfolding Isht_two_ints [OF b a] using m by simp
  with a b m show ?thesis by simp
qed

text \<open>
  Claim C5: with Int \<open>n\<close> on top of the stack, \<^const>\<open>Itof\<close> succeeds and leaves on top a Float
  whose bits, read by \<^verbatim>\<open>math.Float64bits\<close>, are \<^verbatim>\<open>uint64(n)\<close>; \<^const>\<open>Itou\<close> succeeds and leaves
  on top \<^verbatim>\<open>Uint(uint64(n))\<close>. In both cases the unsigned reading of the result is the value
  of \<open>n\<close> modulo \<open>2^64\<close> and every one of the 64 bits is the bit of \<open>n\<close>; the number of values
  on the stack is as before.
\<close>

theorem C5_Itof_Itou_keep_bits:
  assumes "stack_cell s 0 = Some (CInt n)"
  shows "(\<exists>s1 f. Feed fuel Itof s = (None, s1) \<and> stack_cell s1 0 = Some (CFloat f)
            \<and> Float64bits f = to_uint64 n \<and> uint (Float64bits f) = sint n mod 2 ^ 64
            \<and> (\<forall>i. bit (Float64bits f) i = bit n i) \<and> depth s1 = depth s)
       \<and> (\<exists>s2 u. Feed fuel Itou s = (None, s2) \<and> stack_cell s2 0 = Some (CUint u)
            \<and> u = to_uint64 n \<and> uint u = sint n mod 2 ^ 64
            \<and> (\<forall>i. bit u i = bit n i) \<and> depth s2 = depth s)"
proof -
  have u: "to_uint64 n = n" by (simp add: to_uint64_def)
  have m: "uint (to_uint64 n) = sint n mod 2 ^ 64"
    by (simp add: to_uint64_def uint_word_of_int del: of_int_sint)
  let ?f = "Float64frombits (to_uint64 n)"
  have "Feed fuel Itof s = push_new (CFloat ?f) (popped s)"
    by (simp add: feedItof_def and_then_def popInt_top [OF assms] pushFloat_def)
  then have 1: "Feed fuel Itof s = (None, snd (push_new (CFloat ?f) (popped s)))"
    using push_new_popped(1) [OF assms, of "CFloat ?f"] by (simp add: prod_eq_iff)
  have "Feed fuel Itou s = push_new (CUint (to_uint64 n)) (popped s)"
    by (simp add: feedItou_def and_then_def popInt_top [OF assms] pushUint_def)
  then have 2: "Feed fuel Itou s = (None, snd (push_new (CUint (to_uint64 n)) (popped s)))"
    using push_new_popped(1) [OF assms, of "CUint (to_uint64 n)"] by (simp add: prod_eq_iff)
  have b: "Float64bits ?f = to_uint64 n"
    by (simp add: Float64bits_def Float64frombits_def)
  show ?thesis
  proof (intro conjI exI)
    show "Feed fuel Itof s = (None, snd (push_new (CFloat ?f) (popped s)))" by (rule 1)
    show "stack_cell (snd (push_new (CFloat ?f) (popped s))) 0 = Some (CFloat ?f)"
      by (rule push_new_popped(2) [OF assms])
    show "Float64bits ?f = to_uint64 n" by (rule b)
    show "uint (Float64bits ?f) = sint n mod 2 ^ 64" by (simp only: b m)
    show "\<forall>i. bit (Float64bits ?f) i = bit n i" using b u by simp
    show "depth (snd (push_new (CFloat ?f) (popped s))) = depth s"
      by (rule push_new_popped(3) [OF assms])
    show "Feed fuel Itou s = (None, snd (push_new (CUint (to_uint64 n)) (popped s)))" by (rule 2)
    show "stack_cell (snd (push_new (CUint (to_uint64 n)) (popped s))) 0 = Some (CUint (to_uint64 n))"
      by (rule push_new_popped(2) [OF assms])
    show "to_uint64 n = to_uint64 n" by simp
    show "uint (to_uint64 n) = sint n mod 2 ^ 64" by (rule m)
    show "\<forall>i. bit (to_uint64 n) i = bit n i" using u by simp
    show "depth (snd (push_new (CUint (to_uint64 n)) (popped s))) = depth s"
      by (rule push_new_popped(3) [OF assms])
  qed
qed

theorem C5_Itof_Itou_keep_bits_witness:
  "(\<exists>s1 f. Feed 0 Itof (two_ints 0 (- 1)) = (None, s1) \<and> stack_cell s1 0 = Some (CFloat f)
      \<and> uint (Float64bits f) = 18446744073709551615)
   \<and> (\<exists>s2 u. Feed 0 Itou (two_ints 0 (- 1)) = (None, s2) \<and> stack_cell s2 0 = Some (CUint u)
      \<and> uint u = 18446744073709551615)"
proof -
  have a: "stack_cell (two_ints 0 (- 1)) 0 = Some (CInt (- 1))"
    by (simp add: stack_cell_def two_ints_def deref_def)
  have b: "sint (- 1 :: int64) mod 2 ^ 64 = 18446744073709551615" by simp
  show ?thesis
    using C5_Itof_Itou_keep_bits [OF a, of 0] unfolding b by blast
qed


section \<open>Deep copy and the store\<close>

lemma height_elem: "t \<in> set ts \<Longrightarrow> height t \<le> foldr max (map height ts) 0"
  by (induction ts) auto

lemma height_entry: "kt \<in> set kts \<Longrightarrow> height (snd kt) \<le> foldr max (map (\<lambda>kt. height (snd kt)) kts) 0"
  by (induction kts) auto

lemma drop_take_nth:
  assumes e: "drop l (take (length xs) ys) = drop l xs"
    and "l \<le> a" and "a < length xs" and "length xs \<le> length ys"
  shows "ys ! a = xs ! a"
proof -
  have "xs ! a = drop l xs ! (a - l)" using assms(2,3) by simp
  also have "\<dots> = drop l (take (length xs) ys) ! (a - l)" by (simp only: e)
  also have "\<dots> = take (length xs) ys ! a" using assms(2,3,4) by simp
  also have "\<dots> = ys ! a" using assms(3) by simp
  finally show ?thesis by simp
qed

lemma agree_from_cells:
  assumes "agree_from lc lm s s'" and "lc \<le> a" and "a < length (cells s)"
  shows "cells s' ! a = cells s ! a"
  using assms by (intro drop_take_nth [where l = lc]) (simp_all add: agree_from_def)

lemma agree_from_objs:
  assumes "agree_from lc lm s s'" and "lm \<le> m" and "m < length (objs s)"
  shows "objs s' ! m = objs s ! m"
  using assms by (intro drop_take_nth [where l = lm]) (simp_all add: agree_from_def)

lemma cell_at_agree:
  assumes "agree_from lc lm s s'" and "cell_at lc s a = Some c" and "lc' \<le> lc"
  shows "cell_at lc' s' a = Some c"
proof -
  from assms(2) have a: "lc \<le> a" "a < length (cells s)" "cells s ! a = c"
    by (simp_all add: cell_at_def split: if_splits)
  with assms(1) have "cells s' ! a = c" by (simp add: agree_from_cells)
  moreover from a assms(1) have "a < length (cells s')" by (simp add: agree_from_def)
  ultimately show ?thesis using a assms(3) by (simp add: cell_at_def)
qed

lemma repr_from_frame:
  "repr_from lc lm s a t \<Longrightarrow> agree_from lc lm s s' \<Longrightarrow> lc' \<le> lc \<Longrightarrow> lm' \<le> lm \<Longrightarrow>
   repr_from lc' lm' s' a t"
proof (induction lc lm s a t rule: repr_from.induct)
  case (7 lc lm s a ts)
  from "7.prems"(1) obtain xs where c: "cell_at lc s a = Some (CArray xs)"
    and l: "list_all2 (\<lambda>x t. repr_from lc lm s x t) xs ts"
    by (auto split: option.splits cell.splits)
  have "list_all2 (\<lambda>x t. repr_from lc' lm' s' x t) xs ts"
    using l
  proof (rule list.rel_mono_strong)
    fix x t assume "x \<in> set xs" "t \<in> set ts" "repr_from lc lm s x t"
    then show "repr_from lc' lm' s' x t"
      using "7.IH" [OF c refl] "7.prems"(2,3,4) by blast
  qed
  then show ?case
    using cell_at_agree [OF "7.prems"(2) c "7.prems"(3)] by simp
next
  case (8 lc lm s a kts)
  from "8.prems"(1) obtain m where c: "cell_at lc s a = Some (CObject m)"
    and m: "lm \<le> m" "m < length (objs s)"
    and l: "list_all2 (\<lambda>kx kt. fst kx = fst kt \<and> repr_from lc lm s (snd kx) (snd kt)) (objs s ! m) kts"
    by (auto split: option.splits cell.splits)
  have e: "objs s' ! m = objs s ! m" using "8.prems"(2) m by (rule agree_from_objs)
  have m': "m < length (objs s')" using m "8.prems"(2) by (simp add: agree_from_def)
  have "list_all2 (\<lambda>kx kt. fst kx = fst kt \<and> repr_from lc' lm' s' (snd kx) (snd kt)) (objs s ! m) kts"
    using l
  proof (rule list.rel_mono_strong)
    fix kx kt assume "kx \<in> set (objs s ! m)" "kt \<in> set kts"
      "fst kx = fst kt \<and> repr_from lc lm s (snd kx) (snd kt)"
    then show "fst kx = fst kt \<and> repr_from lc' lm' s' (snd kx) (snd kt)"
      using "8.IH" [OF c refl] "8.prems"(2,3,4) by blast
  qed
  then show ?case
    using cell_at_agree [OF "8.prems"(2) c "8.prems"(3)] m m' e "8.prems"(4) by simp
qed (auto intro: cell_at_agree)

lemma extends_refl [simp]: "extends s s"
  by (simp add: extends_def)

lemma take_take_le: "n \<le> m \<Longrightarrow> take n (take m xs) = take n xs"
  by (simp add: min_def)

lemma extends_trans: "extends s s1 \<Longrightarrow> extends s1 s2 \<Longrightarrow> extends s s2"
  unfolding extends_def
  by (metis (no_types, lifting) order_trans take_take_le)

lemma extends_new_value: "extends s (snd (new_value c s))"
  by (simp add: extends_def new_value_def)

lemma extends_new_map: "extends s (snd (new_map kvs s))"
  by (simp add: extends_def new_map_def)

lemma extends_agree: "extends s s' \<Longrightarrow> agree_from lc lm s s'"
  by (simp add: extends_def agree_from_def)

lemma extends_length:
  "extends s s' \<Longrightarrow> length (cells s) \<le> length (cells s') \<and> length (objs s) \<le> length (objs s')"
  by (simp add: extends_def)

lemma repr_from_extends:
  "repr_from lc lm s a t \<Longrightarrow> extends s s' \<Longrightarrow> lc' \<le> lc \<Longrightarrow> lm' \<le> lm \<Longrightarrow>
   repr_from lc' lm' s' a t"
  by (erule repr_from_frame) (simp_all add: extends_agree)

lemma list_repr_extends:
  assumes "list_all2 (\<lambda>x t. repr_from lc lm s x t) xs ts" and "extends s s'"
    and "lc' \<le> lc" and "lm' \<le> lm"
  shows "list_all2 (\<lambda>x t. repr_from lc' lm' s' x t) xs ts"
  using assms(1) by (rule list_all2_mono) (rule repr_from_extends [OF _ assms(2,3,4)])

lemma entries_repr_extends:
  assumes "list_all2 (\<lambda>kx kt. fst kx = fst kt \<and> repr_from lc lm s (snd kx) (snd kt)) kxs kts"
    and "extends s s'" and "lc' \<le> lc" and "lm' \<le> lm"
  shows "list_all2 (\<lambda>kx kt. fst kx = fst kt \<and> repr_from lc' lm' s' (snd kx) (snd kt)) kxs kts"
  using assms(1) by (rule list_all2_mono) (auto intro: repr_from_extends [OF _ assms(2,3,4)])

lemma copy_elems_ok:
  assumes IH: "\<And>a s t. repr_from 0 0 s a t \<Longrightarrow> height t \<le> n \<Longrightarrow>
      \<exists>c s'. DeepCopy n a s = (Inr c, s') \<and> extends s s'
        \<and> repr_from (length (cells s)) (length (objs s)) s' c t"
  shows "list_all2 (\<lambda>x t. repr_from 0 0 s x t) xs ts \<Longrightarrow> \<forall>t\<in>set ts. height t \<le> n \<Longrightarrow>
    \<exists>ys s'. copy_elems n xs s = (Inr ys, s') \<and> extends s s'
      \<and> list_all2 (\<lambda>y t. repr_from (length (cells s)) (length (objs s)) s' y t) ys ts"
proof (induction xs arbitrary: ts s)
  case Nil
  then show ?case by simp
next
  case (Cons x xs)
  from Cons.prems(1) obtain t ts' where ts: "ts = t # ts'" and x: "repr_from 0 0 s x t"
    and r: "list_all2 (\<lambda>x t. repr_from 0 0 s x t) xs ts'"
    by (auto simp: list_all2_Cons1)
  from Cons.prems(2) ts have h: "height t \<le> n" "\<forall>t\<in>set ts'. height t \<le> n" by simp_all
  from IH [OF x h(1)] obtain y s1 where d: "DeepCopy n x s = (Inr y, s1)" and e1: "extends s s1"
    and y: "repr_from (length (cells s)) (length (objs s)) s1 y t" by blast
  have r1: "list_all2 (\<lambda>x t. repr_from 0 0 s1 x t) xs ts'"
    using r e1 by (rule list_repr_extends) simp_all
  from Cons.IH [OF r1 h(2)] obtain ys s2 where c: "copy_elems n xs s1 = (Inr ys, s2)"
    and e2: "extends s1 s2"
    and ys: "list_all2 (\<lambda>y t. repr_from (length (cells s1)) (length (objs s1)) s2 y t) ys ts'"
    by blast
  have l: "length (cells s) \<le> length (cells s1)" "length (objs s) \<le> length (objs s1)"
    using extends_length [OF e1] by simp_all
  have "repr_from (length (cells s)) (length (objs s)) s2 y t"
    using y e2 by (rule repr_from_extends) simp_all
  moreover have "list_all2 (\<lambda>y t. repr_from (length (cells s)) (length (objs s)) s2 y t) ys ts'"
    using ys extends_refl l by (rule list_repr_extends)
  ultimately show ?case
    using d c ts extends_trans [OF e1 e2] by simp
qed

lemma copy_entries_ok:
  assumes IH: "\<And>a s t. repr_from 0 0 s a t \<Longrightarrow> height t \<le> n \<Longrightarrow>
      \<exists>c s'. DeepCopy n a s = (Inr c, s') \<and> extends s s'
        \<and> repr_from (length (cells s)) (length (objs s)) s' c t"
  shows "list_all2 (\<lambda>kx kt. fst kx = fst kt \<and> repr_from 0 0 s (snd kx) (snd kt)) kxs kts \<Longrightarrow>
    \<forall>kt\<in>set kts. height (snd kt) \<le> n \<Longrightarrow>
    \<exists>kys s'. copy_entries n kxs s = (Inr kys, s') \<and> extends s s' \<and> map fst kys = map fst kxs
      \<and> list_all2 (\<lambda>ky kt. fst ky = fst kt
            \<and> repr_from (length (cells s)) (length (objs s)) s' (snd ky) (snd kt)) kys kts"
proof (induction kxs arbitrary: kts s)
  case Nil
  then show ?case by simp
next
  case (Cons kx kxs)
  obtain k x where kx: "kx = (k, x)" by (cases kx)
  from Cons.prems(1) kx obtain t kts' where ts: "kts = (k, t) # kts'" and x: "repr_from 0 0 s x t"
    and r: "list_all2 (\<lambda>kx kt. fst kx = fst kt \<and> repr_from 0 0 s (snd kx) (snd kt)) kxs kts'"
    by (auto simp: list_all2_Cons1)
  from Cons.prems(2) ts have h: "height t \<le> n" "\<forall>kt\<in>set kts'. height (snd kt) \<le> n" by simp_all
  from IH [OF x h(1)] obtain y s1 where d: "DeepCopy n x s = (Inr y, s1)" and e1: "extends s s1"
    and y: "repr_from (length (cells s)) (length (objs s)) s1 y t" by blast
  have r1: "list_all2 (\<lambda>kx kt. fst kx = fst kt \<and> repr_from 0 0 s1 (snd kx) (snd kt)) kxs kts'"
    using r e1 by (rule entries_repr_extends) simp_all
  from Cons.IH [OF r1 h(2)] obtain kys s2 where c: "copy_entries n kxs s1 = (Inr kys, s2)"
    and e2: "extends s1 s2" and f: "map fst kys = map fst kxs"
    and ys: "list_all2 (\<lambda>ky kt. fst ky = fst kt
          \<and> repr_from (length (cells s1)) (length (objs s1)) s2 (snd ky) (snd kt)) kys kts'"
    by blast
  have l: "length (cells s) \<le> length (cells s1)" "length (objs s) \<le> length (objs s1)"
    using extends_length [OF e1] by simp_all
  have "repr_from (length (cells s)) (length (objs s)) s2 y t"
    using y e2 by (rule repr_from_extends) simp_all
  moreover have "list_all2 (\<lambda>ky kt. fst ky = fst kt
      \<and> repr_from (length (cells s)) (length (objs s)) s2 (snd ky) (snd kt)) kys kts'"
    using ys extends_refl l by (rule entries_repr_extends)
  ultimately show ?case
    using d c ts kx f extends_trans [OF e1 e2] by simp
qed

lemma height_pos: "0 < height t"
  by (cases t) simp_all

lemma cell_at_0: "cell_at 0 s a = Some c \<longleftrightarrow> a < length (cells s) \<and> cells s ! a = c"
  by (auto simp: cell_at_def)

lemma DeepCopy_leaf:
  assumes "cell_at 0 s a = Some c" and "kind_of c \<noteq> KArray" and "kind_of c \<noteq> KObject"
  shows "DeepCopy (Suc n) a s = (Inr (length (cells s)), s\<lparr>cells := cells s @ [c]\<rparr>)
    \<and> extends s (s\<lparr>cells := cells s @ [c]\<rparr>)
    \<and> cell_at (length (cells s)) (s\<lparr>cells := cells s @ [c]\<rparr>) (length (cells s)) = Some c"
proof -
  from assms(1) have a: "a < length (cells s)" and c: "cells s ! a = c"
    by (simp_all add: cell_at_0)
  have "DeepCopy (Suc n) a s = (Inr (length (cells s)), s\<lparr>cells := cells s @ [c]\<rparr>)"
  proof (cases c)
    case (CArray xs) with assms(2) show ?thesis by simp
  next
    case (CObject m) with assms(3) show ?thesis by simp
  qed (use a c in \<open>simp_all add: new_value_def\<close>)
  then show ?thesis
    by (simp add: extends_def cell_at_def)
qed

lemma DeepCopy_ok:
  "repr_from 0 0 s a t \<Longrightarrow> height t \<le> n \<Longrightarrow>
   \<exists>c s'. DeepCopy n a s = (Inr c, s') \<and> extends s s'
     \<and> repr_from (length (cells s)) (length (objs s)) s' c t"
proof (induction n arbitrary: a s t)
  case 0
  then show ?case using height_pos [of t] by simp
next
  case (Suc n)
  show ?case
  proof (cases t)
    case (VInt i)
    with Suc.prems have "cell_at 0 s a = Some (CInt i)" by simp
    from DeepCopy_leaf [OF this] show ?thesis using VInt by simp
  next
    case (VUint i)
    with Suc.prems have "cell_at 0 s a = Some (CUint i)" by simp
    from DeepCopy_leaf [OF this] show ?thesis using VUint by simp
  next
    case (VFloat x)
    with Suc.prems have "cell_at 0 s a = Some (CFloat x)" by simp
    from DeepCopy_leaf [OF this] show ?thesis using VFloat by simp
  next
    case (VString b)
    with Suc.prems have "cell_at 0 s a = Some (CString b)" by simp
    from DeepCopy_leaf [OF this] show ?thesis using VString by simp
  next
    case (VBool b)
    with Suc.prems have "cell_at 0 s a = Some (CBool b)" by simp
    from DeepCopy_leaf [OF this] show ?thesis using VBool by simp
  next
    case VNil
    with Suc.prems have "cell_at 0 s a = Some CNil" by simp
    from DeepCopy_leaf [OF this] show ?thesis using VNil by simp
  next
    case (VArray ts)
    with Suc.prems(1) obtain xs where c: "cell_at 0 s a = Some (CArray xs)"
      and l: "list_all2 (\<lambda>x t. repr_from 0 0 s x t) xs ts"
      by (auto split: option.splits cell.splits)
    from Suc.prems(2) VArray have h: "\<forall>t\<in>set ts. height t \<le> n"
      using height_elem by fastforce
    from copy_elems_ok [OF Suc.IH l h] obtain ys s1
      where ce: "copy_elems n xs s = (Inr ys, s1)" and e1: "extends s s1"
        and ys: "list_all2 (\<lambda>y t. repr_from (length (cells s)) (length (objs s)) s1 y t) ys ts"
      by blast
    let ?s2 = "s1\<lparr>cells := cells s1 @ [CArray ys]\<rparr>"
    have e2: "extends s1 ?s2" by (simp add: extends_def)
    have d: "DeepCopy (Suc n) a s = (Inr (length (cells s1)), ?s2)"
      using c ce by (simp add: cell_at_0 new_value_def)
    have "list_all2 (\<lambda>y t. repr_from (length (cells s)) (length (objs s)) ?s2 y t) ys ts"
      using ys e2 by (rule list_repr_extends) simp_all
    moreover have "cell_at (length (cells s)) ?s2 (length (cells s1)) = Some (CArray ys)"
      using extends_length [OF e1] by (simp add: cell_at_def)
    ultimately have "repr_from (length (cells s)) (length (objs s)) ?s2 (length (cells s1)) t"
      using VArray by simp
    then show ?thesis
      using d extends_trans [OF e1 e2] by blast
  next
    case (VObject kts)
    with Suc.prems(1) obtain m where c: "cell_at 0 s a = Some (CObject m)"
      and m: "m < length (objs s)"
      and l: "list_all2 (\<lambda>kx kt. fst kx = fst kt \<and> repr_from 0 0 s (snd kx) (snd kt))
                (objs s ! m) kts"
      by (auto split: option.splits cell.splits)
    from Suc.prems(2) VObject have h: "\<forall>kt\<in>set kts. height (snd kt) \<le> n"
      using height_entry by fastforce
    from copy_entries_ok [OF Suc.IH l h] obtain kys s1
      where ce: "copy_entries n (objs s ! m) s = (Inr kys, s1)" and e1: "extends s s1"
        and ys: "list_all2 (\<lambda>ky kt. fst ky = fst kt
              \<and> repr_from (length (cells s)) (length (objs s)) s1 (snd ky) (snd kt)) kys kts"
      by blast
    let ?s3 = "s1\<lparr>objs := objs s1 @ [kys], cells := cells s1 @ [CObject (length (objs s1))]\<rparr>"
    have e2: "extends s1 ?s3" by (simp add: extends_def)
    have d: "DeepCopy (Suc n) a s = (Inr (length (cells s1)), ?s3)"
      using c ce m by (simp add: cell_at_0 new_value_def new_map_def)
    have "list_all2 (\<lambda>ky kt. fst ky = fst kt
        \<and> repr_from (length (cells s)) (length (objs s)) ?s3 (snd ky) (snd kt)) kys kts"
      using ys e2 by (rule entries_repr_extends) simp_all
    moreover have "cell_at (length (cells s)) ?s3 (length (cells s1)) = Some (CObject (length (objs s1)))"
      using extends_length [OF e1] by (simp add: cell_at_def)
    ultimately have "repr_from (length (cells s)) (length (objs s)) ?s3 (length (cells s1)) t"
      using VObject extends_length [OF e1] by simp
    then show ?thesis
      using d extends_trans [OF e1 e2] by blast
  qed
qed

lemma repr_from_bounds: "repr_from lc lm s a t \<Longrightarrow> lc \<le> a \<and> a < length (cells s)"
  by (cases t) (auto simp: cell_at_def split: if_splits option.splits)

lemma stack_ptr_top:
  "stack_ptr s 0 = Some a \<Longrightarrow>
   0 \<le> sp s \<and> sp s < int (length (stack s)) \<and> stack s ! nat (sp s) = Some a"
  by (simp add: stack_ptr_def split: if_splits)

lemma agree_popped: "agree_from lc lm s (popped s)"
  by (simp add: agree_from_def)

lemma extends_nth_objs: "extends s s' \<Longrightarrow> m < length (objs s) \<Longrightarrow> objs s' ! m = objs s ! m"
  using agree_from_objs [OF extends_agree, of s s' 0 m] by simp

lemma agree_map_assign_push:
  assumes "m < lm" and "lm \<le> length (objs s)"
  shows "agree_from lc lm s (snd (push_new c' (map_assign m k c s)))"
proof -
  have "drop lm (take (length (objs s)) ((objs s)[m := x])) = drop lm (objs s)" for x
    using assms by (simp add: drop_take)
  then show ?thesis
    by (simp add: agree_from_def push_new_def new_value_def push_def map_assign_def)
qed


lemma feedOadd_run:
  assumes v: "stack_ptr s 0 = Some va"
    and k: "stack_cell s 1 = Some (CString k)"
    and o: "stack_cell s 2 = Some (CObject m)" and m: "m < length (objs s)"
    and d: "DeepCopy fuel va (popped (popped (popped s))) = (Inr c, s4)"
    and e: "extends (popped (popped (popped s))) s4"
  shows "Feed fuel Oadd s = (None, snd (push_new (CObject m) (map_assign m k c s4)))"
    and "depth (snd (push_new (CObject m) (map_assign m k c s4))) = depth s - 2"
    and "stack_cell (snd (push_new (CObject m) (map_assign m k c s4))) 0 = Some (CObject m)"
    and "objs (snd (push_new (CObject m) (map_assign m k c s4))) ! m
           = AList.update k c (objs s ! m)"
    and "m < length (objs (snd (push_new (CObject m) (map_assign m k c s4))))"
    and "take (nat (sp s - 2)) (stack (snd (push_new (CObject m) (map_assign m k c s4))))
           = take (nat (sp s - 2)) (stack s)"
proof -
  let ?s3 = "popped (popped (popped s))"
  let ?s5 = "map_assign m k c s4"
  from v have b: "0 \<le> sp s" "sp s < int (length (stack s))" "stack s ! nat (sp s) = Some va"
    by (simp_all add: stack_ptr_top)
  from o have b2: "2 \<le> sp s" by (simp add: stack_cell_def split: if_splits)
  have p1: "pop s = (Inr (Some va), popped s)" using b by (simp add: pop_ok)
  have k1: "stack_cell (popped s) 0 = Some (CString k)"
    using k by (simp add: stack_cell_popped)
  have o1: "stack_cell (popped (popped s)) 0 = Some (CObject m)"
    using o by (simp add: stack_cell_popped numeral_2_eq_2)
  from e have m4: "m < length (objs s4)" and sp4: "sp s4 = sp s - 3"
    and st4: "stack s4 = stack ?s3"
    using m by (simp_all add: extends_def)
  have sp5: "- 1 \<le> sp ?s5" "sp ?s5 + 1 < int (length (stack ?s5))"
    using b b2 sp4 st4 by (simp_all add: map_assign_def)
  have f: "Feed fuel Oadd s = push_new (CObject m) ?s5"
    using m4 by (simp add: feedOadd_def and_then_def p1 popString_top [OF k1]
        popObject_top [OF o1] DeepCopyPtr_def d pushObject_def)
  show "Feed fuel Oadd s = (None, snd (push_new (CObject m) ?s5))"
    using push_new_top(1) [OF sp5, of "CObject m"] unfolding f by (simp add: prod_eq_iff)
  show "depth (snd (push_new (CObject m) ?s5)) = depth s - 2"
    using push_new_top(3) [OF sp5, of "CObject m"] sp4 by (simp add: depth_def map_assign_def)
  show "stack_cell (snd (push_new (CObject m) ?s5)) 0 = Some (CObject m)"
    by (rule push_new_top(2) [OF sp5])
  have "objs s4 ! m = objs ?s3 ! m" using e m by (simp add: extends_nth_objs)
  then show "objs (snd (push_new (CObject m) ?s5)) ! m = AList.update k c (objs s ! m)"
    using m4 unfolding push_new_ok [OF sp5] by (simp add: map_assign_def)
  show "m < length (objs (snd (push_new (CObject m) ?s5)))"
    using m4 unfolding push_new_ok [OF sp5] by (simp add: map_assign_def)
  have "stack ?s3 = (stack s)[nat (sp s) := None, nat (sp s - 1) := None, nat (sp s - 2) := None]"
    by (simp add: popped_def)
  then show "take (nat (sp s - 2)) (stack (snd (push_new (CObject m) ?s5)))
      = take (nat (sp s - 2)) (stack s)"
    using b2 sp4 st4 unfolding push_new_ok [OF sp5] by (simp add: map_assign_def)
qed

text \<open>
  Claim C6: with any value \<open>v\<close> (standing for the tree \<open>t\<close>) on top, a String \<open>k\<close> below it
  and an Object with the map \<open>m\<close> below that, \<^const>\<open>Oadd\<close> with fuel for the depth of \<open>t\<close>
  succeeds; the three values are popped and the stack is two shorter, the entries below are
  as before; the new top is an Object with the same map \<open>m\<close>; the map is the old one updated
  at key \<open>k\<close> (an entry already there is overwritten) with a pointer \<open>c\<close> that stands for \<open>t\<close>;
  \<open>c\<close> is newly allocated, and it stands for \<open>t\<close> in every later store that keeps the structs
  and maps allocated since the call, however the memory that existed before (all of \<open>v\<close>
  included) is changed.
\<close>

theorem C6_Oadd_inserts_deep_copy:
  assumes v: "stack_ptr s 0 = Some va" and rv: "repr s va t" and h: "height t \<le> fuel"
    and k: "stack_cell s 1 = Some (CString k)"
    and o: "stack_cell s 2 = Some (CObject m)" and m: "m < length (objs s)"
  shows "\<exists>s' c. Feed fuel Oadd s = (None, s')
      \<and> depth s' = depth s - 2
      \<and> stack_cell s' 0 = Some (CObject m)
      \<and> m < length (objs s')
      \<and> map_of (objs s' ! m) = (map_of (objs s ! m))(k \<mapsto> c)
      \<and> repr s' c t
      \<and> length (cells s) \<le> c
      \<and> (\<forall>s''. agree_from (length (cells s)) (length (objs s)) s' s'' \<longrightarrow> repr s'' c t)
      \<and> take (nat (sp s - 2)) (stack s') = take (nat (sp s - 2)) (stack s)"
proof -
  let ?s3 = "popped (popped (popped s))"
  have "agree_from 0 0 s ?s3" by (simp add: agree_from_def)
  with rv have r3: "repr_from 0 0 ?s3 va t"
    unfolding repr_def by (rule repr_from_frame) simp_all
  from DeepCopy_ok [OF r3 h] obtain c s4 where d: "DeepCopy fuel va ?s3 = (Inr c, s4)"
    and e: "extends ?s3 s4"
    and rc: "repr_from (length (cells s)) (length (objs s)) s4 c t"
    by auto
  let ?s' = "snd (push_new (CObject m) (map_assign m k c s4))"
  note run = feedOadd_run [OF v k o m d e]
  have l4: "length (objs s) \<le> length (objs s4)" using extends_length [OF e] by simp
  have "agree_from (length (cells s)) (length (objs s)) s4 ?s'"
    using m l4 by (rule agree_map_assign_push)
  with rc have rc': "repr_from (length (cells s)) (length (objs s)) ?s' c t"
    by (rule repr_from_frame) simp_all
  have ind: "repr s'' c t" if "agree_from (length (cells s)) (length (objs s)) ?s' s''" for s''
    unfolding repr_def using rc' that by (rule repr_from_frame) simp_all
  have "repr ?s' c t"
    unfolding repr_def using rc' by (rule repr_from_extends) simp_all
  moreover have "length (cells s) \<le> c" using repr_from_bounds [OF rc] by simp
  moreover have "map_of (objs ?s' ! m) = (map_of (objs s ! m))(k \<mapsto> c)"
    by (simp add: run(4) update_conv')
  ultimately show ?thesis
    using run(1,2,3,5,6) ind by blast
qed


theorem C6_Oadd_inserts_deep_copy_witness:
  "\<exists>s' c. Feed 2 Oadd oadd_state = (None, s')
     \<and> stack_cell s' 0 = Some (CObject 0)
     \<and> map_of (objs s' ! 0) ''a'' = Some c
     \<and> 4 \<le> c
     \<and> repr s' c (VArray [VInt 1])
     \<and> repr (mutate_v s') c (VArray [VInt 1])"
proof -
  have v: "stack_ptr oadd_state 0 = Some 3"
    by (simp add: stack_ptr_def oadd_state_def)
  have rv: "repr oadd_state 3 (VArray [VInt 1])"
    by (simp add: repr_def cell_at_def oadd_state_def)
  have h: "height (VArray [VInt 1]) \<le> 2" by simp
  have k: "stack_cell oadd_state 1 = Some (CString ''a'')"
    by (simp add: stack_cell_def deref_def oadd_state_def)
  have o: "stack_cell oadd_state 2 = Some (CObject 0)"
    by (simp add: stack_cell_def deref_def oadd_state_def)
  have m: "0 < length (objs oadd_state)" by (simp add: oadd_state_def)
  have l: "length (cells oadd_state) = 4" "length (objs oadd_state) = 1"
    by (simp_all add: oadd_state_def)
  have a: "agree_from 4 1 s' (mutate_v s')" for s'
    by (simp add: agree_from_def mutate_v_def drop_take)
  from C6_Oadd_inserts_deep_copy [OF v rv h k o m] obtain s' c
    where "Feed 2 Oadd oadd_state = (None, s')" "stack_cell s' 0 = Some (CObject 0)"
      "map_of (objs s' ! 0) = (map_of (objs oadd_state ! 0))(''a'' \<mapsto> c)"
      "repr s' c (VArray [VInt 1])" "4 \<le> c"
      "\<forall>s''. agree_from 4 1 s' s'' \<longrightarrow> repr s'' c (VArray [VInt 1])"
    unfolding l by blast
  then show ?thesis using a by auto
qed

section \<open>Properties of the bridge\<close>

lemma type_switch_Predeclared: "type_switch v = Some p \<Longrightarrow> rtype_of v = Predeclared"
  by (erule type_switch.elims) simp_all

lemma marshaler_no_type_switch: "marshaler v = Some r \<Longrightarrow> type_switch v = None"
proof (cases "type_switch v")
  case (Some p)
  assume "marshaler v = Some r"
  with type_switch_Predeclared [OF Some] show ?thesis by (simp add: marshaler_def)
qed simp

text \<open>
  Claim C7: \<^verbatim>\<open>ToValue(nil)\<close> is Nil; for every other host value whose type has the marshal
  capability, whatever its kind (a primitive kind, a struct, a nil pointer), \<^verbatim>\<open>ToValue\<close> returns
  the result of its \<^verbatim>\<open>MarshalWatson\<close>, no case of the type switch applies to it, and
  \<^verbatim>\<open>ToValueByReflection\<close> returns the same; without the capability the primitive case of the
  type switch applies when there is one, and the rules by reflection otherwise.
\<close>

theorem C7_precedence:
  "ToValue None = Some VNil
   \<and> (marshaler v = Some r \<longrightarrow>
        ToValue (Some v) = Some r \<and> type_switch v = None
        \<and> ToValueByReflection False v = Some r)
   \<and> (marshaler v = None \<and> type_switch v = Some p \<longrightarrow> ToValue (Some v) = Some p)
   \<and> (marshaler v = None \<and> type_switch v = None \<longrightarrow>
        ToValue (Some v) = ToValueByReflection False v)"
  by (auto simp: marshaler_no_type_switch ToValueByReflection.simps isMarshaler_def)

theorem C7_precedence_witness:
  "ToValue None = Some VNil
   \<and> ToValue (Some (RInt (WithMarshal (VString ''m'')) 3)) = Some (VString ''m'')
   \<and> ToValue (Some (RStruct (WithMarshal (VString ''m'')) person_fields)) = Some (VString ''m'')
   \<and> ToValue (Some (RPtr (WithMarshal (VString ''m'')) None)) = Some (VString ''m'')
   \<and> ToValue (Some (RInt Predeclared 3)) = Some (VInt 3)
   \<and> ToValue (Some (RPtr WithoutMarshal None)) = Some VNil"
proof -
  have m: "marshaler (RInt (WithMarshal (VString ''m'')) 3) = Some (VString ''m'')"
    "marshaler (RStruct (WithMarshal (VString ''m'')) person_fields) = Some (VString ''m'')"
    "marshaler (RPtr (WithMarshal (VString ''m'')) None) = Some (VString ''m'')"
    by (simp_all add: marshaler_def)
  have n: "marshaler (RInt Predeclared 3) = None \<and> type_switch (RInt Predeclared 3) = Some (VInt 3)"
    "marshaler (RPtr WithoutMarshal None) = None \<and> type_switch (RPtr WithoutMarshal None) = None"
    by (simp_all add: marshaler_def)
  have r: "ToValueByReflection False (RPtr WithoutMarshal None) = Some VNil"
    by (simp add: ToValueByReflection.simps isMarshaler_def marshaler_def)
  show ?thesis
    using C7_precedence [of "RInt (WithMarshal (VString ''m'')) 3" "VString ''m''"]
      C7_precedence [of "RStruct (WithMarshal (VString ''m'')) person_fields" "VString ''m''"]
      C7_precedence [of "RPtr (WithMarshal (VString ''m'')) None" "VString ''m''"]
      C7_precedence [of "RInt Predeclared 3" _ "VInt 3"]
      C7_precedence [of "RPtr WithoutMarshal None"]
      m n r
    by simp
qed

lemma dom_update: "dom (map_of (AList.update k v al)) = insert k (dom (map_of al))"
  by (simp add: update_conv')

lemma addFields_keys:
  "addFields ro obj fs = Some obj' \<Longrightarrow> dom (map_of obj') = dom (map_of obj) \<union> set (field_keys fs)"
proof (induction fs arbitrary: ro obj obj' rule: field_keys.induct)
  case 1
  then show ?case by simp
next
  case (2 f elem fs)
  show ?case
  proof (cases "ShouldAlwaysOmit f \<or> (OmitEmpty f \<and> IsZero elem)")
    case True
    with "2.prems" have "addFields ro obj fs = Some obj'" by (auto split: if_splits)
    from "2.IH"(2) [OF this] True show ?thesis by auto
  next
    case False
    show ?thesis
    proof (cases "Inline f")
      case True
      with False "2.prems" obtain ty fs' obj1 where e: "elem = RStruct ty fs'"
        and a: "addFields (ro \<or> \<not> exported f) obj fs' = Some obj1"
        and b: "addFields ro obj1 fs = Some obj'"
        by (auto split: rvalue.splits option.splits)
      from False True e have "dom (map_of obj1) = dom (map_of obj) \<union> set (field_keys fs')"
        by (intro "2.IH"(1) [OF _ _ _ _ a]) auto
      with "2.IH"(2) [OF b] False True e show ?thesis by auto
    next
      case ni: False
      with False "2.prems" obtain y where
        b: "addFields ro (AList.update (Key f) y obj) fs = Some obj'"
        by (auto split: option.splits)
      from "2.IH"(2) [OF b] False ni show ?thesis by (auto simp: dom_update)
    qed
  qed
qed

text \<open>
  Claim C8, for the loop of \<^verbatim>\<open>addFields\<close> over the fields of a struct, the field \<open>f\<close> with the
  value \<open>elem\<close> being the next one: a field whose tag name is \<^verbatim>\<open>-\<close> is skipped; so is a field
  with \<^verbatim>\<open>omitempty\<close> whose value is zero; otherwise a field with \<^verbatim>\<open>inline\<close> that is a struct has
  its own fields added to the same Object by the same rules, and no entry of its own;
  otherwise the field's converted value is stored under its key, the tag name or, for a field
  without tag, the field name. In all, when the conversion completes the keys of the Object
  are those it had and the keys the spec's rules give (\<^const>\<open>field_keys\<close>).
\<close>

theorem C8_struct_fields:
  "(ShouldAlwaysOmit f \<longrightarrow> addFields ro obj ((f, elem) # fs) = addFields ro obj fs)
   \<and> (OmitEmpty f \<and> IsZero elem \<longrightarrow> addFields ro obj ((f, elem) # fs) = addFields ro obj fs)
   \<and> (\<not> ShouldAlwaysOmit f \<and> \<not> (OmitEmpty f \<and> IsZero (RStruct ty fs')) \<and> Inline f \<longrightarrow>
        addFields ro obj ((f, RStruct ty fs') # fs) =
          Option.bind (addFields (ro \<or> \<not> exported f) obj fs') (\<lambda>obj1. addFields ro obj1 fs))
   \<and> (\<not> ShouldAlwaysOmit f \<and> \<not> (OmitEmpty f \<and> IsZero elem) \<and> \<not> Inline f \<longrightarrow>
        addFields ro obj ((f, elem) # fs) =
          Option.bind (elemToValue (ro \<or> \<not> exported f) elem)
            (\<lambda>y. addFields ro (AList.update (Key f) y obj) fs))
   \<and> (field_tag f = None \<longrightarrow> Key f = field_name f)
   \<and> (field_tag f = Some t \<longrightarrow> Key f = tag_name t \<and> (ShouldAlwaysOmit f \<longleftrightarrow> tag_name t = ''-''))
   \<and> (addFields ro obj fs = Some obj' \<longrightarrow>
        dom (map_of obj') = dom (map_of obj) \<union> set (field_keys fs))
   \<and> (ToValue (Some (RStruct WithoutMarshal fs)) = Some w \<longrightarrow>
        (\<exists>obj'. w = VObject obj' \<and> dom (map_of obj') = set (field_keys fs)))"
proof (intro conjI impI)
  assume "addFields ro obj fs = Some obj'"
  then show "dom (map_of obj') = dom (map_of obj) \<union> set (field_keys fs)"
    by (rule addFields_keys)
next
  assume "ToValue (Some (RStruct WithoutMarshal fs)) = Some w"
  then obtain obj' where "addFields False [] fs = Some obj'" "w = VObject obj'"
    by (auto simp: marshaler_def isMarshaler_def ToValueByReflection.simps)
  with addFields_keys [of False "[]" fs obj']
  show "\<exists>obj'. w = VObject obj' \<and> dom (map_of obj') = set (field_keys fs)" by simp
qed (auto simp: Key_def ShouldAlwaysOmit_def split: option.splits)

theorem C8_struct_fields_witness:
  "ToValue (Some (RStruct WithoutMarshal person_fields)) = Some (VObject person_object)
   \<and> field_keys person_fields = [''X'', ''name'', ''Age'']
   \<and> dom (map_of person_object) = {''X'', ''name'', ''Age''}"
proof -
  have k: "field_keys person_fields = [''X'', ''name'', ''Age'']"
    by (simp add: person_fields_def ShouldAlwaysOmit_def OmitEmpty_def Inline_def Key_def)
  have a: "addFields False [] person_fields = Some person_object"
    by (simp add: person_fields_def person_object_def ShouldAlwaysOmit_def OmitEmpty_def
        Inline_def Key_def elemToValue.simps)
  then have t: "ToValue (Some (RStruct WithoutMarshal person_fields)) = Some (VObject person_object)"
    by (simp add: marshaler_def isMarshaler_def ToValueByReflection.simps)
  from C8_struct_fields [where fs = person_fields and w = "VObject person_object"] t
  have "dom (map_of person_object) = set (field_keys person_fields)" by blast
  with k t show ?thesis by simp
qed


end
